theory Spec2Isabelle
  imports Main "HOL-Library.AList"
begin

section \<open>The bounded restart driver \<open>psi4_optimize\<close>\<close>

text \<open>
  The notebooks define one function with logic of its own, \<open>psi4_optimize\<close>: it sets the
  iteration options of the engine, calls the engine's \<open>optimize\<close>, and on a
  \<open>ConvergenceError\<close> saves the unconverged wavefunction, resets the options and tries
  again, until \<open>loop_count\<close> reaches \<open>max_loop_count\<close>. Both notebooks hold the same
  text of the function.

  The engine is not part of the repository. Its objects (energies, wavefunctions,
  molecules, matrices, arrays, histories) are values of one type \<open>'v\<close> that the driver
  only passes on, and its hidden state is a value of type \<open>'e\<close>. Calls to the logger
  change nothing that the driver reads and are left out.
\<close>

subsection \<open>Data\<close>

text \<open>Values of the option dictionary: the driver writes integers and one string.\<close>

datatype optval = IntOpt int | StrOpt string

text \<open>The process-wide option dictionary of the engine, as an association list.\<close>

type_synonym options = "(string \<times> optval) list"

text \<open>
  Exceptions. \<open>ConvergenceError\<close> (with its subclasses) carries the unconverged
  wavefunction \<open>cerr.wfn\<close>; \<open>OtherError\<close> is any exception of the engine that is not a
  \<open>ConvergenceError\<close>; \<open>UnboundLocalError\<close> is what Python raises when a local variable is
  read before it is assigned.
\<close>

datatype 'v exn = ConvergenceError 'v | OtherError 'v | UnboundLocalError string

text \<open>
  The third component of the returned tuple: the history returned by the engine, or the
  dictionary built by the driver (keys to tuples of arrays).
\<close>

datatype 'v trajectory = History 'v | Dict "(string \<times> 'v list) list"

text \<open>The arguments of \<open>psi4_optimize\<close>; Python's integers are unbounded.\<close>

record 'v args =
  initial_iterations :: int
  increment_iteration :: int
  max_loop_count :: int
  molecule :: "'v option"
  "method" :: string

definition default_args :: "'v args" where
  "default_args =
     \<lparr>initial_iterations = 2, increment_iteration = 2, max_loop_count = 20,
      molecule = None, method = ''hf/cc-pvdz''\<rparr>"

text \<open>
  The calls of the engine that the driver makes. \<open>optimize\<close> is called with
  \<open>return_wfn=True, return_history=True\<close>: it reads the method, the options in effect and
  the hidden state, and either returns \<open>(energy, wfn, history)\<close> or raises.
  \<open>geometry\<close> is \<open>molecule.geometry()\<close>, \<open>scale\<close> is \<open>Matrix.scale\<close>, \<open>to_array\<close> is
  \<open>Matrix.to_array\<close>, \<open>bohr2angstroms\<close> is \<open>psi4.constants.bohr2angstroms\<close>,
  \<open>get_scratch_filename\<close> and \<open>to_file\<close> are the methods of the wavefunction.
\<close>

record ('e, 'v) psi4 =
  optimize :: "string \<Rightarrow> options \<Rightarrow> 'e \<Rightarrow> ('v exn + 'v \<times> 'v \<times> 'v) \<times> 'e"
  geometry :: "'v \<Rightarrow> 'e \<Rightarrow> 'v"
  scale :: "'v \<Rightarrow> 'v \<Rightarrow> 'v"
  to_array :: "'v \<Rightarrow> 'v"
  bohr2angstroms :: 'v
  get_scratch_filename :: "'v \<Rightarrow> nat \<Rightarrow> string"
  to_file :: "'v \<Rightarrow> string \<Rightarrow> 'e \<Rightarrow> 'e"

text \<open>
  The state of one run: the option dictionary and the hidden state of the engine, the
  local variables of \<open>psi4_optimize\<close> (a local that is not yet assigned is \<open>None\<close>), and
  three logs that only record, in the order of the calls, every call of \<open>optimize\<close> (the
  options in effect, what it returned or raised, and the hidden state it left), every
  call of \<open>to_file\<close> (file name and wavefunction) and every call of \<open>psi4.set_options\<close>
  (the dictionary passed).
\<close>

record ('e, 'v) state =
  options :: options
  engine :: 'e
  optimize_calls :: "(options \<times> ('v exn + 'v \<times> 'v \<times> 'v) \<times> 'e) list"
  to_file_calls :: "(string \<times> 'v) list"
  set_options_calls :: "options list"
  unconv :: bool
  loop_count :: int
  molecule_traj :: "'v list option"
  opt_energy :: "'v option"
  wfn :: "'v option"
  traj :: "'v trajectory option"

subsection \<open>The driver\<close>

text \<open>\<open>psi4.set_options(d)\<close>: every key of \<open>d\<close> is set, the other keys stay.\<close>

definition set_options :: "options \<Rightarrow> options \<Rightarrow> options" where
  "set_options d opts = fold (\<lambda>(k, v). AList.update k v) d opts"

text \<open>
  The first three lines of the handler:
  \<^verbatim>\<open>
  if molecule is not None:
      bohr_coor = molecule.geometry()
      bohr_coor.scale(psi4.constants.bohr2angstroms)
      molecule_traj.append(bohr_coor.to_array())
  \<close>
\<close>

definition save_geometry ::
  "'v args \<Rightarrow> ('e, 'v) psi4 \<Rightarrow> ('e, 'v) state \<Rightarrow> 'v exn + ('e, 'v) state" where
  "save_geometry a p s =
     (case molecule a of
        None \<Rightarrow> Inr s
      | Some m \<Rightarrow>
          (let bohr_coor = scale p (geometry p m (engine s)) (bohr2angstroms p) in
           case molecule_traj s of
             None \<Rightarrow> Inl (UnboundLocalError ''molecule_traj'')
           | Some t \<Rightarrow> Inr (s\<lparr>molecule_traj := Some (t @ [to_array p bohr_coor])\<rparr>)))"

text \<open>
  The handler \<open>except psi4.driver.ConvergenceError as cerr\<close>, given \<open>cerr.wfn\<close>. It ends
  either by raising (\<open>Inl\<close>, with the state at that point) or by falling through to the
  loop test (\<open>Inr\<close>).
  \<^verbatim>\<open>
  unconv_wfn = cerr.wfn
  unconv_wfn.to_file(unconv_wfn.get_scratch_filename(180))
  psi4.set_options({"GUESS": "read",
                    "MAXITER": initial_iterations + increment_iteration,
                    "GEOM_MAXITER": initial_iterations + increment_iteration})
  loop_count = loop_count + 1
  if max_loop_count <= loop_count:
      raise cerr
  \<close>
\<close>

definition except_ConvergenceError ::
  "'v args \<Rightarrow> ('e, 'v) psi4 \<Rightarrow> 'v \<Rightarrow> ('e, 'v) state
     \<Rightarrow> 'v exn \<times> ('e, 'v) state + ('e, 'v) state" where
  "except_ConvergenceError a p unconv_wfn s =
     (case save_geometry a p s of
        Inl x \<Rightarrow> Inl (x, s)
      | Inr s1 \<Rightarrow>
          (let fname = get_scratch_filename p unconv_wfn 180;
               s2 = s1\<lparr>engine := to_file p unconv_wfn fname (engine s1),
                       to_file_calls := to_file_calls s1 @ [(fname, unconv_wfn)]\<rparr>;
               d = [(''GUESS'', StrOpt ''read''),
                    (''MAXITER'', IntOpt (initial_iterations a + increment_iteration a)),
                    (''GEOM_MAXITER'', IntOpt (initial_iterations a + increment_iteration a))];
               s3 = s2\<lparr>options := set_options d (options s2),
                       set_options_calls := set_options_calls s2 @ [d]\<rparr>;
               s4 = s3\<lparr>loop_count := loop_count s3 + 1\<rparr>
           in if max_loop_count a \<le> loop_count s4
              then Inl (ConvergenceError unconv_wfn, s4)
              else Inr s4))"

text \<open>
  One pass through the body of the \<open>while\<close>: the \<open>try\<close> block and, on a
  \<open>ConvergenceError\<close>, the handler. Any other exception of \<open>optimize\<close> leaves the function.
  \<^verbatim>\<open>
  try:
      opt_energy, wfn, traj = psi4.optimize(method, return_wfn=True, return_history=True)
      unconv = False
  except psi4.driver.ConvergenceError as cerr:
      ...
  \<close>
\<close>

definition loop_body ::
  "'v args \<Rightarrow> ('e, 'v) psi4 \<Rightarrow> ('e, 'v) state \<Rightarrow> 'v exn \<times> ('e, 'v) state + ('e, 'v) state" where
  "loop_body a p s =
     (case optimize p (method a) (options s) (engine s) of
        (r, e') \<Rightarrow>
          (let s1 = s\<lparr>engine := e', optimize_calls := optimize_calls s @ [(options s, r, e')]\<rparr> in
           case r of
             Inr (en, w, h) \<Rightarrow>
               Inr (s1\<lparr>opt_energy := Some en, wfn := Some w, traj := Some (History h),
                        unconv := False\<rparr>)
           | Inl (ConvergenceError cerr_wfn) \<Rightarrow> except_ConvergenceError a p cerr_wfn s1
           | Inl x \<Rightarrow> Inl (x, s1)))"

text \<open>\<open>while unconv is True: ...\<close>\<close>

function while_loop ::
  "'v args \<Rightarrow> ('e, 'v) psi4 \<Rightarrow> ('e, 'v) state \<Rightarrow> 'v exn \<times> ('e, 'v) state + ('e, 'v) state" where
  "while_loop a p s =
     (if unconv s
      then (case loop_body a p s of Inl x \<Rightarrow> Inl x | Inr s' \<Rightarrow> while_loop a p s')
      else Inr s)"
  by pat_completeness auto
termination
proof (relation "measure (\<lambda>(a, p, s).
        if unconv s then 1 + nat (max_loop_count a - loop_count s) else 0)")
  show "wf (measure (\<lambda>(a :: 'v args, p :: ('e, 'v) psi4, s :: ('e, 'v) state).
        if unconv s then 1 + nat (max_loop_count a - loop_count s) else 0))"
    by simp
next
  fix a :: "'v args" and p :: "('e, 'v) psi4" and s s' :: "('e, 'v) state"
  assume "unconv s" and "loop_body a p s = Inr s'"
  then have "(if unconv s' then 1 + nat (max_loop_count a - loop_count s') else 0)
               < 1 + nat (max_loop_count a - loop_count s)"
    by (auto simp: loop_body_def except_ConvergenceError_def save_geometry_def Let_def
             split: prod.splits sum.splits exn.splits option.splits if_splits)
  with \<open>unconv s\<close>
  show "((a, p, s'), (a, p, s)) \<in> measure (\<lambda>(a, p, s).
        if unconv s then 1 + nat (max_loop_count a - loop_count s) else 0)"
    by simp
qed

declare while_loop.simps [simp del]

text \<open>
  The function. It takes the option dictionary and the hidden state of the engine at the
  call, and gives what the caller gets (the raised exception or the returned tuple)
  together with the state at that point.
  \<^verbatim>\<open>
  unconv = True
  psi4.set_options({"MAXITER": initial_iterations, "GEOM_MAXITER": initial_iterations})
  loop_count = 0
  if molecule is not None:
      molecule_traj = []
  while unconv is True: ...
  if molecule is not None:
      traj = {"coordinates": tuple(np.array(molecule_traj))}
  return opt_energy, wfn, traj
  \<close>
  \<open>tuple(np.array(l))\<close> of a list of arrays of one shape holds the arrays of \<open>l\<close> in the
  order of \<open>l\<close>.
\<close>

definition initial_state :: "'v args \<Rightarrow> options \<Rightarrow> 'e \<Rightarrow> ('e, 'v) state" where
  "initial_state a opts e =
     \<lparr>options = set_options
        [(''MAXITER'', IntOpt (initial_iterations a)),
         (''GEOM_MAXITER'', IntOpt (initial_iterations a))] opts,
      engine = e, optimize_calls = [], to_file_calls = [],
      set_options_calls =
        [[(''MAXITER'', IntOpt (initial_iterations a)),
          (''GEOM_MAXITER'', IntOpt (initial_iterations a))]],
      unconv = True, loop_count = 0,
      molecule_traj = (if molecule a \<noteq> None then Some [] else None),
      opt_energy = None, wfn = None, traj = None\<rparr>"

definition after_loop ::
  "'v args \<Rightarrow> ('e, 'v) state \<Rightarrow> ('v exn + 'v \<times> 'v \<times> 'v trajectory) \<times> ('e, 'v) state" where
  "after_loop a s =
     (case (if molecule a \<noteq> None
            then (case molecule_traj s of
                    None \<Rightarrow> Inl (UnboundLocalError ''molecule_traj'')
                  | Some t \<Rightarrow> Inr (s\<lparr>traj := Some (Dict [(''coordinates'', t)])\<rparr>))
            else Inr s) of
        Inl x \<Rightarrow> (Inl x, s)
      | Inr s' \<Rightarrow>
          (case opt_energy s' of
             None \<Rightarrow> (Inl (UnboundLocalError ''opt_energy''), s')
           | Some en \<Rightarrow>
               (case wfn s' of
                  None \<Rightarrow> (Inl (UnboundLocalError ''wfn''), s')
                | Some w \<Rightarrow>
                    (case traj s' of
                       None \<Rightarrow> (Inl (UnboundLocalError ''traj''), s')
                     | Some t \<Rightarrow> (Inr (en, w, t), s')))))"

definition psi4_optimize ::
  "'v args \<Rightarrow> ('e, 'v) psi4 \<Rightarrow> options \<Rightarrow> 'e
     \<Rightarrow> ('v exn + 'v \<times> 'v \<times> 'v trajectory) \<times> ('e, 'v) state" where
  "psi4_optimize a p opts e =
     (case while_loop a p (initial_state a opts e) of
        Inl (x, s) \<Rightarrow> (Inl x, s)
      | Inr s \<Rightarrow> after_loop a s)"

subsection \<open>Observing a run\<close>

text \<open>The state in which a pass, or the loop, ends: at the raise or at the normal exit.\<close>

definition final_state :: "'x \<times> ('e, 'v) state + ('e, 'v) state \<Rightarrow> ('e, 'v) state" where
  "final_state r = (case r of Inl (x, s) \<Rightarrow> s | Inr s \<Rightarrow> s)"

text \<open>
  The states that a run of the loop goes through, in order: the state at each test of the
  \<open>while\<close> condition and, when a pass ends with a raise, the state at the raise.
\<close>

function run_states ::
  "'v args \<Rightarrow> ('e, 'v) psi4 \<Rightarrow> ('e, 'v) state \<Rightarrow> ('e, 'v) state list" where
  "run_states a p s =
     s # (if unconv s
          then (case loop_body a p s of
                  Inl (x, s') \<Rightarrow> [s']
                | Inr s' \<Rightarrow> run_states a p s')
          else [])"
  by pat_completeness auto
termination
proof (relation "measure (\<lambda>(a, p, s).
        if unconv s then 1 + nat (max_loop_count a - loop_count s) else 0)")
  show "wf (measure (\<lambda>(a :: 'v args, p :: ('e, 'v) psi4, s :: ('e, 'v) state).
        if unconv s then 1 + nat (max_loop_count a - loop_count s) else 0))"
    by simp
next
  fix a :: "'v args" and p :: "('e, 'v) psi4" and s s' :: "('e, 'v) state"
  assume "unconv s" and "loop_body a p s = Inr s'"
  then have "(if unconv s' then 1 + nat (max_loop_count a - loop_count s') else 0)
               < 1 + nat (max_loop_count a - loop_count s)"
    by (auto simp: loop_body_def except_ConvergenceError_def save_geometry_def Let_def
             split: prod.splits sum.splits exn.splits option.splits if_splits)
  with \<open>unconv s\<close>
  show "((a, p, s'), (a, p, s)) \<in> measure (\<lambda>(a, p, s).
        if unconv s then 1 + nat (max_loop_count a - loop_count s) else 0)"
    by simp
qed

declare run_states.simps [simp del]

text \<open>
  The failed attempts in a log of \<open>optimize\<close> calls: for every call that raised a
  \<open>ConvergenceError\<close>, its wavefunction and the hidden state the call left.
\<close>

fun failures ::
  "(options \<times> ('v exn + 'v \<times> 'v \<times> 'v) \<times> 'e) list \<Rightarrow> ('v \<times> 'e) list" where
  "failures [] = []"
| "failures ((opts, Inl (ConvergenceError w), e) # cs) = (w, e) # failures cs"
| "failures (c # cs) = failures cs"

text \<open>The array that the handler appends for molecule \<open>m\<close> when the engine is in state \<open>e\<close>.\<close>

definition snapshot :: "('e, 'v) psi4 \<Rightarrow> 'v \<Rightarrow> 'e \<Rightarrow> 'v" where
  "snapshot p m e = to_array p (scale p (geometry p m e) (bohr2angstroms p))"

text \<open>The iteration budget \<open>MAXITER\<close> in effect at each call of \<open>optimize\<close>, in order.\<close>

definition budgets :: "('e, 'v) state \<Rightarrow> optval option list" where
  "budgets s = map (\<lambda>c. map_of (fst c) ''MAXITER'') (optimize_calls s)"

text \<open>An engine whose \<open>optimize\<close> raises a \<open>ConvergenceError\<close> whatever it is given.\<close>

definition never_converges :: "('e, 'v) psi4 \<Rightarrow> bool" where
  "never_converges p =
     (\<forall>m opts e. \<exists>w e'. optimize p m opts e = (Inl (ConvergenceError w), e'))"

text \<open>The state right after a call of \<open>optimize\<close> that gave \<open>r\<close> and left \<open>e'\<close>.\<close>

definition after_call ::
  "('e, 'v) state \<Rightarrow> ('v exn + 'v \<times> 'v \<times> 'v) \<Rightarrow> 'e \<Rightarrow> ('e, 'v) state" where
  "after_call s r e' =
     s\<lparr>engine := e', optimize_calls := optimize_calls s @ [(options s, r, e')]\<rparr>"

text \<open>
  The state in which the handler ends (at its raise or at its last line) when
  \<open>molecule_traj\<close> is assigned whenever a molecule is given.
\<close>

definition retry_state :: "'v args \<Rightarrow> ('e, 'v) psi4 \<Rightarrow> 'v \<Rightarrow> ('e, 'v) state \<Rightarrow> ('e, 'v) state" where
  "retry_state a p w s =
     s\<lparr>molecule_traj :=
         (case molecule a of
            None \<Rightarrow> molecule_traj s
          | Some m \<Rightarrow> map_option (\<lambda>t. t @ [snapshot p m (engine s)]) (molecule_traj s)),
       engine := to_file p w (get_scratch_filename p w 180) (engine s),
       to_file_calls := to_file_calls s @ [(get_scratch_filename p w 180, w)],
       options := set_options
         [(''GUESS'', StrOpt ''read''),
          (''MAXITER'', IntOpt (initial_iterations a + increment_iteration a)),
          (''GEOM_MAXITER'', IntOpt (initial_iterations a + increment_iteration a))]
         (options s),
       set_options_calls := set_options_calls s @
         [[(''GUESS'', StrOpt ''read''),
           (''MAXITER'', IntOpt (initial_iterations a + increment_iteration a)),
           (''GEOM_MAXITER'', IntOpt (initial_iterations a + increment_iteration a))]],
       loop_count := loop_count s + 1\<rparr>"

text \<open>
  What the counter, the log of \<open>to_file\<close> and the accumulator hold in terms of the failed
  attempts so far: one count, one write to the file of unit 180 and, with a molecule, one
  array for each of them, in their order.
\<close>

definition consistent :: "'v args \<Rightarrow> ('e, 'v) psi4 \<Rightarrow> ('e, 'v) state \<Rightarrow> bool" where
  "consistent a p s =
     (loop_count s = int (length (failures (optimize_calls s))) \<and>
      to_file_calls s =
        map (\<lambda>f. (get_scratch_filename p (fst f) 180, fst f)) (failures (optimize_calls s)) \<and>
      molecule_traj s =
        map_option (\<lambda>m. map (\<lambda>f. snapshot p m (snd f)) (failures (optimize_calls s)))
          (molecule a))"

text \<open>
  What holds at each test of the loop condition: the state is consistent with the log
  and, once \<open>unconv\<close> is \<open>False\<close>, the last call of \<open>optimize\<close> returned and its three
  results are in \<open>opt_energy\<close>, \<open>wfn\<close> and \<open>traj\<close>.
\<close>

definition returned :: "('e, 'v) state \<Rightarrow> bool" where
  "returned s =
     (\<exists>opts en w h e'. optimize_calls s \<noteq> [] \<and>
        last (optimize_calls s) = (opts, Inr (en, w, h), e') \<and>
        opt_energy s = Some en \<and> wfn s = Some w \<and> traj s = Some (History h))"

definition at_test :: "'v args \<Rightarrow> ('e, 'v) psi4 \<Rightarrow> ('e, 'v) state \<Rightarrow> bool" where
  "at_test a p s = (consistent a p s \<and> (\<not> unconv s \<longrightarrow> returned s))"

text \<open>
  What holds of the counter at each test of the loop condition: once it has left 0 and
  the loop goes on, it is below the ceiling.
\<close>

definition counter_at_test :: "'v args \<Rightarrow> ('e, 'v) psi4 \<Rightarrow> ('e, 'v) state \<Rightarrow> bool" where
  "counter_at_test a p s =
     (consistent a p s \<and> (unconv s \<and> loop_count s \<noteq> 0 \<longrightarrow> loop_count s < max_loop_count a))"

text \<open>
  The options that the driver writes, and what the option dictionary holds in a state of
  a run that started from the dictionary \<open>opts\<close>.
\<close>

definition driver_options :: "string set" where
  "driver_options = {''MAXITER'', ''GEOM_MAXITER'', ''GUESS''}"

definition options_at :: "'v args \<Rightarrow> options \<Rightarrow> ('e, 'v) state \<Rightarrow> bool" where
  "options_at a opts s =
     (map_of (options s) ''MAXITER'' =
        Some (IntOpt (if loop_count s = 0 then initial_iterations a
                      else initial_iterations a + increment_iteration a)) \<and>
      map_of (options s) ''GEOM_MAXITER'' = map_of (options s) ''MAXITER'' \<and>
      map_of (options s) ''GUESS'' =
        (if loop_count s = 0 then map_of opts ''GUESS'' else Some (StrOpt ''read'')) \<and>
      (\<forall>k. k \<notin> driver_options \<longrightarrow> map_of (options s) k = map_of opts k))"

text \<open>
  What the log of \<open>optimize\<close> calls says about the budget: the first call is made under
  \<open>initial_iterations\<close>, every later one under
  \<open>initial_iterations + increment_iteration\<close>; and while the loop goes on, \<open>loop_count\<close> is
  the number of calls made.
\<close>

definition budgets_said :: "'v args \<Rightarrow> ('e, 'v) state \<Rightarrow> bool" where
  "budgets_said a s =
     (budgets s =
        map (\<lambda>k. Some (IntOpt (if k = 0 then initial_iterations a
                                else initial_iterations a + increment_iteration a)))
          [0 ..< length (optimize_calls s)])"

definition budget_log :: "'v args \<Rightarrow> ('e, 'v) state \<Rightarrow> bool" where
  "budget_log a s =
     (budgets_said a s \<and> (unconv s \<longrightarrow> loop_count s = int (length (optimize_calls s))))"

text \<open>
  The dictionaries that the driver passes to \<open>psi4.set_options\<close>, before the loop and in
  the handler, and what the log of these calls holds in a state of a run that started from
  the dictionary \<open>opts\<close>: the first dictionary, then the second once for each failed
  attempt; the option dictionary is \<open>opts\<close> after these calls.
\<close>

definition first_options :: "'v args \<Rightarrow> options" where
  "first_options a =
     [(''MAXITER'', IntOpt (initial_iterations a)),
      (''GEOM_MAXITER'', IntOpt (initial_iterations a))]"

definition retry_options :: "'v args \<Rightarrow> options" where
  "retry_options a =
     [(''GUESS'', StrOpt ''read''),
      (''MAXITER'', IntOpt (initial_iterations a + increment_iteration a)),
      (''GEOM_MAXITER'', IntOpt (initial_iterations a + increment_iteration a))]"

definition options_logged :: "'v args \<Rightarrow> options \<Rightarrow> ('e, 'v) state \<Rightarrow> bool" where
  "options_logged a opts s =
     (set_options_calls s = first_options a # replicate (nat (loop_count s)) (retry_options a) \<and>
      options s = fold set_options (set_options_calls s) opts)"

subsection \<open>Engines for concrete runs\<close>

text \<open>
  A stub engine over numbers. Its hidden state counts the calls of \<open>optimize\<close>. The
  first \<open>n\<close> calls raise a \<open>ConvergenceError\<close> whose wavefunction is \<open>100 + k\<close> at call
  \<open>k\<close> (from 0); every later call returns energy 1, wavefunction 2 and history 3. The
  geometry of a molecule is \<open>1000\<close> plus the number of calls made so far.
\<close>

definition stub :: "nat \<Rightarrow> (nat, nat) psi4" where
  "stub n =
     \<lparr>optimize = (\<lambda>m opts k.
        (if k < n then Inl (ConvergenceError (100 + k)) else Inr (1, 2, 3), k + 1)),
      geometry = (\<lambda>m k. 1000 + k),
      scale = (\<lambda>g c. g),
      to_array = (\<lambda>g. g),
      bohr2angstroms = 0,
      get_scratch_filename = (\<lambda>w u. if u = 180 then ''psi.180'' else ''psi''),
      to_file = (\<lambda>w f k. k)\<rparr>"

text \<open>The same engine, except that \<open>optimize\<close> never converges.\<close>

definition stubborn :: "(nat, nat) psi4" where
  "stubborn =
     (stub 0)\<lparr>optimize := (\<lambda>m opts k. (Inl (ConvergenceError (100 + k)), k + 1))\<rparr>"


text \<open>The call of the notebook, with and without a molecule, and with other ceilings.\<close>

definition notebook_args :: "nat args" where
  "notebook_args =
     \<lparr>initial_iterations = 10, increment_iteration = 10, max_loop_count = 20,
      molecule = Some 5, method = ''hf/cc-pvdz''\<rparr>"

definition bare_args :: "int \<Rightarrow> nat args" where
  "bare_args M = notebook_args\<lparr>max_loop_count := M, molecule := None\<rparr>"

definition mol_args :: "int \<Rightarrow> nat args" where
  "mol_args M = notebook_args\<lparr>max_loop_count := M\<rparr>"

section \<open>Properties\<close>

subsection \<open>One pass of the loop\<close>

lemma failures_snoc:
  "failures (cs @ [c]) =
     failures cs @ (case c of (opts, Inl (ConvergenceError w), e) \<Rightarrow> [(w, e)] | _ \<Rightarrow> [])"
  by (induction cs rule: failures.induct) (auto split: prod.splits sum.splits exn.splits)

lemma map_of_set_options:
  "map_of (set_options d opts) k =
     (case map_of (rev d) k of None \<Rightarrow> map_of opts k | Some v \<Rightarrow> Some v)"
  unfolding set_options_def
proof (induction d arbitrary: opts)
  case Nil
  show ?case by simp
next
  case (Cons kv d)
  obtain k' v' where kv: "kv = (k', v')" by (cases kv)
  show ?case
    by (simp add: kv Cons update_conv' map_add_def split: option.splits)
qed

text \<open>What one pass does, by what optimize gives.\<close>

lemma loop_body_converged:
  assumes "optimize p (method a) (options s) (engine s) = (Inr (en, w, h), e')"
  shows "loop_body a p s =
           Inr (s\<lparr>engine := e',
                  optimize_calls := optimize_calls s @ [(options s, Inr (en, w, h), e')],
                  opt_energy := Some en, wfn := Some w, traj := Some (History h),
                  unconv := False\<rparr>)"
  using assms by (simp add: loop_body_def)

lemma loop_body_other:
  assumes "optimize p (method a) (options s) (engine s) = (Inl x, e')"
    and "\<And>w. x \<noteq> ConvergenceError w"
  shows "loop_body a p s =
           Inl (x, s\<lparr>engine := e',
                      optimize_calls := optimize_calls s @ [(options s, Inl x, e')]\<rparr>)"
  using assms by (cases x) (auto simp: loop_body_def)

lemma loop_body_failed:
  assumes "optimize p (method a) (options s) (engine s) = (Inl (ConvergenceError w), e')"
  shows "loop_body a p s =
           except_ConvergenceError a p w
             (s\<lparr>engine := e',
                optimize_calls :=
                  optimize_calls s @ [(options s, Inl (ConvergenceError w), e')]\<rparr>)"
  using assms by (simp add: loop_body_def)


lemma except_ConvergenceError_result:
  assumes "molecule a = None \<or> molecule_traj s \<noteq> None"
  shows "except_ConvergenceError a p w s =
       (if max_loop_count a \<le> loop_count s + 1
        then Inl (ConvergenceError w, retry_state a p w s)
        else Inr (retry_state a p w s))"
  using assms
  by (cases "molecule a"; cases "molecule_traj s")
     (auto simp: except_ConvergenceError_def save_geometry_def snapshot_def Let_def
                 retry_state_def)

lemma consistent_initial: "consistent a p (initial_state a opts e)"
  by (cases "molecule a") (simp_all add: consistent_def initial_state_def)

lemma consistent_bound: "consistent a p s \<Longrightarrow> molecule a = None \<or> molecule_traj s \<noteq> None"
  by (cases "molecule a") (simp_all add: consistent_def)

lemma consistent_step:
  assumes "consistent a p s"
  shows "consistent a p (final_state (loop_body a p s))"
proof -
  obtain r e' where opt: "optimize p (method a) (options s) (engine s) = (r, e')"
    by (cases "optimize p (method a) (options s) (engine s)")
  show ?thesis
  proof (cases r)
    case (Inr res)
    obtain en w h where "res = (en, w, h)" by (cases res)
    with Inr opt assms show ?thesis
      by (simp add: loop_body_converged final_state_def consistent_def failures_snoc
               split: option.splits)
  next
    case (Inl x)
    show ?thesis
    proof (cases "\<exists>w. x = ConvergenceError w")
      case False
      with Inl opt assms show ?thesis
        by (cases x)
           (simp_all add: loop_body_other final_state_def consistent_def failures_snoc
                     split: option.splits)
    next
      case True
      then obtain w where x: "x = ConvergenceError w" by blast
      let ?s1 = "s\<lparr>engine := e',
                  optimize_calls := optimize_calls s @ [(options s, Inl (ConvergenceError w), e')]\<rparr>"
      have b: "molecule a = None \<or> molecule_traj ?s1 \<noteq> None"
        using consistent_bound [OF assms] by simp
      have fin: "final_state (loop_body a p s) = retry_state a p w ?s1"
        using opt Inl x
        by (simp add: loop_body_failed final_state_def except_ConvergenceError_result [OF b])
      show ?thesis
        unfolding fin using assms
        by (auto simp: consistent_def failures_snoc retry_state_def split: option.splits)
    qed
  qed
qed


text \<open>
  The four ways a pass can go, when \<open>molecule_traj\<close> is assigned whenever a molecule is
  given: \<open>optimize\<close> returns; it raises a \<open>ConvergenceError\<close> below the ceiling; it raises
  one at the ceiling; it raises anything else.
\<close>

lemma loop_body_cases [consumes 1, case_names converged retry exhausted other]:
  assumes "molecule a = None \<or> molecule_traj s \<noteq> None"
  obtains
    (converged) en w h e' where
      "optimize p (method a) (options s) (engine s) = (Inr (en, w, h), e')"
      "loop_body a p s =
         Inr ((after_call s (Inr (en, w, h)) e')
               \<lparr>opt_energy := Some en, wfn := Some w, traj := Some (History h),
                unconv := False\<rparr>)"
  | (retry) w e' where
      "optimize p (method a) (options s) (engine s) = (Inl (ConvergenceError w), e')"
      "\<not> max_loop_count a \<le> loop_count s + 1"
      "loop_body a p s = Inr (retry_state a p w (after_call s (Inl (ConvergenceError w)) e'))"
  | (exhausted) w e' where
      "optimize p (method a) (options s) (engine s) = (Inl (ConvergenceError w), e')"
      "max_loop_count a \<le> loop_count s + 1"
      "loop_body a p s =
         Inl (ConvergenceError w, retry_state a p w (after_call s (Inl (ConvergenceError w)) e'))"
  | (other) x e' where
      "optimize p (method a) (options s) (engine s) = (Inl x, e')"
      "\<And>w. x \<noteq> ConvergenceError w"
      "loop_body a p s = Inl (x, after_call s (Inl x) e')"
proof -
  obtain r e' where opt: "optimize p (method a) (options s) (engine s) = (r, e')"
    by (cases "optimize p (method a) (options s) (engine s)")
  show thesis
  proof (cases r)
    case (Inr res)
    obtain en w h where "res = (en, w, h)" by (cases res)
    with Inr opt show thesis
      by (intro converged [of en w h e']) (simp_all add: loop_body_converged after_call_def)
  next
    case (Inl y)
    show thesis
    proof (cases "\<exists>w. y = ConvergenceError w")
      case False
      then have n: "\<And>w. y \<noteq> ConvergenceError w" by blast
      from loop_body_other [OF opt [unfolded Inl] n] opt Inl n show thesis
        by (intro other [of y e']) (simp_all add: after_call_def)
    next
      case True
      then obtain w where y: "y = ConvergenceError w" by blast
      let ?s1 = "after_call s (Inl (ConvergenceError w)) e'"
      have b: "molecule a = None \<or> molecule_traj ?s1 \<noteq> None"
        using assms by (simp add: after_call_def)
      have lb: "loop_body a p s =
         (if max_loop_count a \<le> loop_count s + 1
          then Inl (ConvergenceError w, retry_state a p w ?s1)
          else Inr (retry_state a p w ?s1))"
      proof -
        have "loop_body a p s = except_ConvergenceError a p w ?s1"
          using opt Inl y by (simp add: loop_body_failed after_call_def)
        also have "\<dots> =
         (if max_loop_count a \<le> loop_count ?s1 + 1
          then Inl (ConvergenceError w, retry_state a p w ?s1)
          else Inr (retry_state a p w ?s1))"
          by (rule except_ConvergenceError_result [OF b])
        finally show ?thesis by (simp add: after_call_def)
      qed
      show thesis
      proof (cases "max_loop_count a \<le> loop_count s + 1")
        case True
        with lb opt Inl y show thesis
          by (intro exhausted [of w e']) simp_all
      next
        case False
        with lb opt Inl y show thesis
          by (intro retry [of w e']) simp_all
      qed
    qed
  qed
qed

subsection \<open>The states of a run\<close>

lemma run_states_not_Nil: "run_states a p s \<noteq> []"
  by (subst run_states.simps) simp

lemma hd_run_states: "hd (run_states a p s) = s"
  by (subst run_states.simps) simp

lemma run_states_stop: "\<not> unconv s \<Longrightarrow> run_states a p s = [s]"
  by (subst run_states.simps) simp

lemma run_states_raise:
  "unconv s \<Longrightarrow> loop_body a p s = Inl (x, s') \<Longrightarrow> run_states a p s = [s, s']"
  by (subst run_states.simps) simp

lemma run_states_continue:
  "unconv s \<Longrightarrow> loop_body a p s = Inr s' \<Longrightarrow> run_states a p s = s # run_states a p s'"
  by (subst run_states.simps) simp

lemma while_loop_last: "final_state (while_loop a p s) = last (run_states a p s)"
proof (induction a p s rule: while_loop.induct)
  case (1 a p s)
  show ?case
  proof (cases "unconv s")
    case False
    then show ?thesis
      by (subst while_loop.simps) (simp add: final_state_def run_states_stop)
  next
    case True
    show ?thesis
    proof (cases "loop_body a p s")
      case (Inl xs)
      obtain x s' where "xs = (x, s')" by (cases xs)
      with Inl True show ?thesis
        by (subst while_loop.simps) (simp add: final_state_def run_states_raise)
    next
      case (Inr s')
      with True "1.IH" [of s'] show ?thesis
        by (subst while_loop.simps) (simp add: run_states_continue run_states_not_Nil)
    qed
  qed
qed

text \<open>
  Invariants of a run: \<open>I\<close> holds at every test of the loop condition, \<open>Q\<close> at every
  state, also at a raise.
\<close>

lemma run_states_invariant:
  assumes "I s"
    and keep: "\<And>s s'. I s \<Longrightarrow> unconv s \<Longrightarrow> loop_body a p s = Inr s' \<Longrightarrow> I s'"
    and weaken: "\<And>s. I s \<Longrightarrow> Q s"
    and raised: "\<And>s x s'. I s \<Longrightarrow> unconv s \<Longrightarrow> loop_body a p s = Inl (x, s') \<Longrightarrow> Q s'"
  shows "(\<forall>s' \<in> set (run_states a p s). Q s') \<and>
         (\<forall>s' \<in> set (butlast (run_states a p s)). I s' \<and> unconv s')"
  using assms
proof (induction a p s rule: run_states.induct)
  case (1 a p s)
  note Is = "1.prems"(1) and keep = "1.prems"(2) and weaken = "1.prems"(3)
    and raised = "1.prems"(4)
  have Qs: "Q s" by (rule weaken [OF Is])
  show ?case
  proof (cases "unconv s")
    case False
    show ?thesis
      unfolding run_states_stop [OF False] using Qs by simp
  next
    case True
    show ?thesis
    proof (cases "loop_body a p s")
      case (Inl xs)
      obtain x s' where xs: "xs = (x, s')" by (cases xs)
      have "Q s'" using raised [OF Is True Inl [unfolded xs]] .
      then show ?thesis
        unfolding run_states_raise [OF True Inl [unfolded xs]] using Qs Is True by simp
    next
      case (Inr s')
      from keep [OF Is True Inr] have "I s'" .
      from "1.IH" [OF True Inr this keep weaken raised]
      have IH: "(\<forall>s'' \<in> set (run_states a p s'). Q s'') \<and>
         (\<forall>s'' \<in> set (butlast (run_states a p s')). I s'' \<and> unconv s'')" .
      show ?thesis
        unfolding run_states_continue [OF True Inr] using IH Qs Is True
        by (simp add: run_states_not_Nil)
    qed
  qed
qed


lemma after_loop_state:
  "snd (after_loop a s) = s \<or>
   (\<exists>t. molecule_traj s = Some t \<and>
        snd (after_loop a s) = s\<lparr>traj := Some (Dict [(''coordinates'', t)])\<rparr>)"
  by (simp add: after_loop_def split: option.splits)

lemma psi4_optimize_state:
  "\<exists>t. snd (psi4_optimize a p opts e) =
         (last (run_states a p (initial_state a opts e)))\<lparr>traj := t\<rparr>"
proof -
  let ?r = "while_loop a p (initial_state a opts e)"
  have l: "final_state ?r = last (run_states a p (initial_state a opts e))"
    by (rule while_loop_last)
  show ?thesis
  proof (cases ?r)
    case (Inl xs)
    obtain x s' where "xs = (x, s')" by (cases xs)
    with Inl have "snd (psi4_optimize a p opts e) = s'" and "final_state ?r = s'"
      by (simp_all add: psi4_optimize_def final_state_def)
    with l have "snd (psi4_optimize a p opts e) =
         (last (run_states a p (initial_state a opts e)))\<lparr>traj := traj s'\<rparr>"
      by simp
    then show ?thesis ..
  next
    case (Inr s')
    with l have s': "last (run_states a p (initial_state a opts e)) = s'"
      by (simp add: final_state_def)
    have p: "snd (psi4_optimize a p opts e) = snd (after_loop a s')"
      using Inr by (simp add: psi4_optimize_def)
    from after_loop_state [of a s'] show ?thesis
    proof
      assume "snd (after_loop a s') = s'"
      then have "snd (psi4_optimize a p opts e) = s'\<lparr>traj := traj s'\<rparr>"
        using p by simp
      then show ?thesis unfolding s' ..
    next
      assume "\<exists>t. molecule_traj s' = Some t \<and>
        snd (after_loop a s') = s'\<lparr>traj := Some (Dict [(''coordinates'', t)])\<rparr>"
      then obtain t where
        "snd (after_loop a s') = s'\<lparr>traj := Some (Dict [(''coordinates'', t)])\<rparr>"
        by blast
      then have "snd (psi4_optimize a p opts e) = s'\<lparr>traj := Some (Dict [(''coordinates'', t)])\<rparr>"
        using p by simp
      then show ?thesis unfolding s' ..
    qed
  qed
qed


lemma while_loop_stop: "\<not> unconv s \<Longrightarrow> while_loop a p s = Inr s"
  by (subst while_loop.simps) simp

lemma while_loop_raise:
  "unconv s \<Longrightarrow> loop_body a p s = Inl x \<Longrightarrow> while_loop a p s = Inl x"
  by (subst while_loop.simps) simp

lemma while_loop_continue:
  "unconv s \<Longrightarrow> loop_body a p s = Inr s' \<Longrightarrow> while_loop a p s = while_loop a p s'"
  by (subst while_loop.simps) simp

lemma while_loop_Inr:
  "while_loop a p s = Inr s' \<Longrightarrow> \<not> unconv s' \<and> s' = last (run_states a p s)"
proof (induction a p s rule: while_loop.induct)
  case (1 a p s)
  show ?case
  proof (cases "unconv s")
    case False
    with "1.prems" show ?thesis
      by (simp add: while_loop_stop run_states_stop)
  next
    case True
    show ?thesis
    proof (cases "loop_body a p s")
      case (Inl xs)
      with True "1.prems" show ?thesis
        by (simp add: while_loop_raise)
    next
      case (Inr s1)
      with True "1.prems" have "while_loop a p s1 = Inr s'"
        by (simp add: while_loop_continue)
      from "1.IH" [OF True Inr this] True Inr show ?thesis
        by (auto simp: run_states_continue run_states_not_Nil)
    qed
  qed
qed

lemma while_loop_Inl:
  "while_loop a p s = Inl (x, s') \<Longrightarrow>
     \<exists>s1 \<in> set (butlast (run_states a p s)). loop_body a p s1 = Inl (x, s')"
proof (induction a p s rule: while_loop.induct)
  case (1 a p s)
  show ?case
  proof (cases "unconv s")
    case False
    with "1.prems" show ?thesis
      by (simp add: while_loop_stop)
  next
    case True
    show ?thesis
    proof (cases "loop_body a p s")
      case (Inl xs)
      with True "1.prems" have "loop_body a p s = Inl (x, s')"
        by (simp add: while_loop_raise)
      with True show ?thesis
        by (simp add: run_states_raise)
    next
      case (Inr s1)
      with True "1.prems" have "while_loop a p s1 = Inl (x, s')"
        by (simp add: while_loop_continue)
      from "1.IH" [OF True Inr this] True Inr show ?thesis
        by (auto simp: run_states_continue run_states_not_Nil)
    qed
  qed
qed

lemma last_run_states_mem: "last (run_states a p s) \<in> set (run_states a p s)"
  by (simp add: run_states_not_Nil)

lemma final_consistent: "consistent a p (snd (psi4_optimize a p opts e))"
proof -
  have "\<forall>s' \<in> set (run_states a p (initial_state a opts e)). consistent a p s'"
  proof (rule conjunct1 [OF run_states_invariant [where I = "consistent a p"]])
    show "consistent a p (initial_state a opts e)" by (rule consistent_initial)
  next
    fix s s' assume "consistent a p s" and "loop_body a p s = Inr s'"
    with consistent_step [of a p s] show "consistent a p s'"
      by (simp add: final_state_def)
  next
    fix s x s' assume "consistent a p s" and "loop_body a p s = Inl (x, s')"
    with consistent_step [of a p s] show "consistent a p s'"
      by (simp add: final_state_def)
  qed
  then have "consistent a p (last (run_states a p (initial_state a opts e)))"
    using last_run_states_mem by blast
  moreover from psi4_optimize_state [of a p opts e]
  obtain t where "snd (psi4_optimize a p opts e) =
         (last (run_states a p (initial_state a opts e)))\<lparr>traj := t\<rparr>" ..
  ultimately show ?thesis
    by (simp add: consistent_def)
qed

subsection \<open>How a run ends\<close>

lemma at_test_initial: "at_test a p (initial_state a opts e)"
  using consistent_initial [of a p opts e] by (simp add: at_test_def initial_state_def)

lemma at_test_keep:
  assumes "at_test a p s" and "unconv s" and "loop_body a p s = Inr s'"
  shows "at_test a p s'"
proof -
  from assms(1) have c: "consistent a p s" by (simp add: at_test_def)
  from consistent_step [OF c] assms(3) have c': "consistent a p s'"
    by (simp add: final_state_def)
  from consistent_bound [OF c] show ?thesis
  proof (cases rule: loop_body_cases [of a s p])
    case (converged en w h e')
    with assms(3) c' show ?thesis
      by (auto simp: at_test_def returned_def after_call_def)
  next
    case (retry w e')
    with assms(2,3) c' show ?thesis
      by (auto simp: at_test_def retry_state_def after_call_def)
  next
    case (exhausted w e')
    with assms(3) show ?thesis by simp
  next
    case (other x e')
    with assms(3) show ?thesis by simp
  qed
qed

lemma at_test_run:
  "\<forall>s' \<in> set (butlast (run_states a p (initial_state a opts e))). at_test a p s' \<and> unconv s'"
  by (rule conjunct2 [OF run_states_invariant [where I = "at_test a p" and Q = "\<lambda>s. True"]])
     (simp_all add: at_test_initial at_test_keep)

lemma at_test_while_loop:
  "at_test a p s \<Longrightarrow> while_loop a p s = Inr s' \<Longrightarrow> at_test a p s'"
proof (induction a p s rule: while_loop.induct)
  case (1 a p s)
  show ?case
  proof (cases "unconv s")
    case False
    with "1.prems" show ?thesis by (simp add: while_loop_stop)
  next
    case True
    show ?thesis
    proof (cases "loop_body a p s")
      case (Inl xs)
      with True "1.prems" show ?thesis by (simp add: while_loop_raise)
    next
      case (Inr s1)
      with True "1.prems" have w: "while_loop a p s1 = Inr s'"
        by (simp add: while_loop_continue)
      from at_test_keep [OF "1.prems"(1) True Inr] have "at_test a p s1" .
      from "1.IH" [OF True Inr this w] show ?thesis .
    qed
  qed
qed

lemma at_test_return:
  assumes "while_loop a p (initial_state a opts e) = Inr s'"
  shows "at_test a p s' \<and> \<not> unconv s'"
  using at_test_while_loop [OF at_test_initial assms] while_loop_Inr [OF assms, THEN conjunct1]
  by simp

text \<open>The two ways \<open>psi4_optimize\<close> ends.\<close>

lemma psi4_optimize_cases [case_names raised returned]:
  obtains
    (raised) x s1 where
      "fst (psi4_optimize a p opts e) = Inl x"
      "consistent a p s1" "unconv s1"
      "s1 \<in> set (butlast (run_states a p (initial_state a opts e)))"
      "loop_body a p s1 = Inl (x, snd (psi4_optimize a p opts e))"
  | (returned) s' opts' en w h e' where
      "while_loop a p (initial_state a opts e) = Inr s'"
      "consistent a p s'" "\<not> unconv s'"
      "optimize_calls s' \<noteq> []"
      "last (optimize_calls s') = (opts', Inr (en, w, h), e')"
      "psi4_optimize a p opts e =
         (case molecule a of
            None \<Rightarrow> (Inr (en, w, History h), s')
          | Some m \<Rightarrow>
              (Inr (en, w, Dict [(''coordinates'',
                       map (\<lambda>f. snapshot p m (snd f)) (failures (optimize_calls s')))]),
               s'\<lparr>traj := Some (Dict [(''coordinates'',
                       map (\<lambda>f. snapshot p m (snd f)) (failures (optimize_calls s')))])\<rparr>))"
proof (cases "while_loop a p (initial_state a opts e)")
  case (Inl xs)
  obtain x s' where xs: "xs = (x, s')" by (cases xs)
  with Inl have r: "psi4_optimize a p opts e = (Inl x, s')"
    by (simp add: psi4_optimize_def)
  from while_loop_Inl [OF Inl [unfolded xs]] obtain s1 where
    s1: "s1 \<in> set (butlast (run_states a p (initial_state a opts e)))"
      "loop_body a p s1 = Inl (x, s')" by blast
  with at_test_run [of a p opts e] have "consistent a p s1" "unconv s1"
    by (auto simp: at_test_def)
  with r s1 show thesis
    by (intro raised [of x s1]) simp_all
next
  case (Inr s')
  from at_test_return [OF Inr] have c: "consistent a p s'" and u: "\<not> unconv s'"
    and "returned s'"
    by (simp_all add: at_test_def)
  then obtain opts' en w h e' where l: "optimize_calls s' \<noteq> []"
      "last (optimize_calls s') = (opts', Inr (en, w, h), e')"
    and v: "opt_energy s' = Some en" "wfn s' = Some w" "traj s' = Some (History h)"
    unfolding returned_def by blast
  have "psi4_optimize a p opts e = after_loop a s'"
    using Inr by (simp add: psi4_optimize_def)
  with c v have "psi4_optimize a p opts e =
         (case molecule a of
            None \<Rightarrow> (Inr (en, w, History h), s')
          | Some m \<Rightarrow>
              (Inr (en, w, Dict [(''coordinates'',
                       map (\<lambda>f. snapshot p m (snd f)) (failures (optimize_calls s')))]),
               s'\<lparr>traj := Some (Dict [(''coordinates'',
                       map (\<lambda>f. snapshot p m (snd f)) (failures (optimize_calls s')))])\<rparr>))"
    by (cases "molecule a") (simp_all add: after_loop_def consistent_def)
  with Inr c u l show thesis
    by (intro returned [of s' opts' en w h e'])
qed

lemma run_states_self: "s \<in> set (run_states a p s)"
  by (subst run_states.simps) simp

lemma run_states_unconv_butlast: "unconv s \<Longrightarrow> s \<in> set (butlast (run_states a p s))"
proof (cases "loop_body a p s")
  case (Inl xs)
  assume "unconv s"
  moreover obtain x s' where "xs = (x, s')" by (cases xs)
  ultimately show ?thesis using Inl by (simp add: run_states_raise)
next
  case (Inr s')
  assume "unconv s"
  with Inr show ?thesis by (simp add: run_states_continue run_states_not_Nil)
qed

lemma run_states_next:
  "s1 \<in> set (butlast (run_states a p s0)) \<Longrightarrow> loop_body a p s1 = Inr s2 \<Longrightarrow>
     s2 \<in> set (run_states a p s0) \<and> (unconv s2 \<longrightarrow> s2 \<in> set (butlast (run_states a p s0)))"
proof (induction a p s0 rule: run_states.induct)
  case (1 a p s)
  show ?case
  proof (cases "unconv s")
    case False
    with "1.prems" show ?thesis by (simp add: run_states_stop)
  next
    case True
    show ?thesis
    proof (cases "loop_body a p s")
      case (Inl xs)
      obtain x s' where "xs = (x, s')" by (cases xs)
      with Inl True "1.prems" show ?thesis by (simp add: run_states_raise)
    next
      case (Inr t)
      note rs = run_states_continue [OF True Inr]
      show ?thesis
      proof (cases "s1 = s")
        case True
        with Inr "1.prems"(2) have "s2 = t" by simp
        then show ?thesis
          unfolding rs using run_states_self [of t a p] run_states_unconv_butlast [of t a p]
          by (simp add: run_states_not_Nil)
      next
        case False
        with "1.prems"(1) have "s1 \<in> set (butlast (run_states a p t))"
          unfolding rs by (simp add: run_states_not_Nil)
        from "1.IH" [OF True Inr this "1.prems"(2)] show ?thesis
          unfolding rs by (simp add: run_states_not_Nil)
      qed
    qed
  qed
qed

lemma run_states_raised:
  "s1 \<in> set (butlast (run_states a p s0)) \<Longrightarrow> loop_body a p s1 = Inl (x, s') \<Longrightarrow>
     while_loop a p s0 = Inl (x, s')"
proof (induction a p s0 rule: run_states.induct)
  case (1 a p s)
  show ?case
  proof (cases "unconv s")
    case False
    with "1.prems" show ?thesis by (simp add: run_states_stop)
  next
    case True
    show ?thesis
    proof (cases "loop_body a p s")
      case (Inl ys)
      obtain y t where "ys = (y, t)" by (cases ys)
      with Inl True "1.prems" show ?thesis
        by (simp add: run_states_raise while_loop_raise)
    next
      case (Inr t)
      note rs = run_states_continue [OF True Inr]
      from Inr "1.prems"(2) have "s1 \<noteq> s" by auto
      with "1.prems"(1) have "s1 \<in> set (butlast (run_states a p t))"
        unfolding rs by (simp add: run_states_not_Nil)
      from "1.IH" [OF True Inr this "1.prems"(2)] show ?thesis
        by (simp add: while_loop_continue [OF True Inr])
    qed
  qed
qed

lemma psi4_optimize_raised:
  assumes "s1 \<in> set (butlast (run_states a p (initial_state a opts e)))"
    and "loop_body a p s1 = Inl (x, s')"
  shows "psi4_optimize a p opts e = (Inl x, s')"
  using run_states_raised [OF assms] by (simp add: psi4_optimize_def)

lemma after_loop_calls:
  "optimize_calls (snd (after_loop a s)) = optimize_calls s"
  "to_file_calls (snd (after_loop a s)) = to_file_calls s"
  "loop_count (snd (after_loop a s)) = loop_count s"
  "options (snd (after_loop a s)) = options s"
  "molecule_traj (snd (after_loop a s)) = molecule_traj s"
  using after_loop_state [of a s] by auto

lemma converged_at_once:
  assumes "optimize p (method a)
             (set_options [(''MAXITER'', IntOpt (initial_iterations a)),
                           (''GEOM_MAXITER'', IntOpt (initial_iterations a))] opts) e
           = (Inr (en, w, h), e')"
  shows "psi4_optimize a p opts e =
           after_loop a
             ((after_call (initial_state a opts e) (Inr (en, w, h)) e')
                \<lparr>opt_energy := Some en, wfn := Some w, traj := Some (History h),
                 unconv := False\<rparr>)"
proof -
  let ?s0 = "initial_state a opts e"
  let ?s1 = "(after_call ?s0 (Inr (en, w, h)) e')
                \<lparr>opt_energy := Some en, wfn := Some w, traj := Some (History h),
                 unconv := False\<rparr>"
  have "optimize p (method a) (options ?s0) (engine ?s0) = (Inr (en, w, h), e')"
    using assms by (simp add: initial_state_def)
  then have "loop_body a p ?s0 = Inr ?s1"
    by (simp add: loop_body_converged after_call_def)
  moreover have "unconv ?s0" by (simp add: initial_state_def)
  ultimately have "while_loop a p ?s0 = while_loop a p ?s1"
    by (rule while_loop_continue [rotated])
  also have "\<dots> = Inr ?s1"
    by (rule while_loop_stop) simp
  finally show ?thesis
    by (simp add: psi4_optimize_def)
qed

lemma run_states_final:
  assumes "s1 \<in> set (butlast (run_states a p s0))"
  shows "final_state (loop_body a p s1) \<in> set (run_states a p s0)"
proof (cases "loop_body a p s1")
  case (Inl xs)
  obtain x s' where xs: "xs = (x, s')" by (cases xs)
  from run_states_raised [OF assms Inl [unfolded xs]]
  have "final_state (while_loop a p s0) = s'" by (simp add: final_state_def)
  then have "s' = last (run_states a p s0)" by (simp add: while_loop_last)
  with Inl xs last_run_states_mem [of a p s0] show ?thesis
    by (simp add: final_state_def)
next
  case (Inr s2)
  with run_states_next [OF assms Inr] show ?thesis
    by (simp add: final_state_def)
qed

lemma counter_run:
  "(\<forall>s \<in> set (run_states a p (initial_state a opts e)).
      loop_count s = int (length (failures (optimize_calls s))) \<and>
      loop_count s \<le> max 1 (max_loop_count a)) \<and>
   (\<forall>s \<in> set (butlast (run_states a p (initial_state a opts e))).
      counter_at_test a p s \<and> unconv s)"
proof -
  let ?Q = "\<lambda>s. loop_count s = int (length (failures (optimize_calls s))) \<and>
              loop_count s \<le> max 1 (max_loop_count a)"
  let ?I = "\<lambda>s. counter_at_test a p s \<and> ?Q s"
  have inv: "(\<forall>s' \<in> set (run_states a p (initial_state a opts e)). ?Q s') \<and>
         (\<forall>s' \<in> set (butlast (run_states a p (initial_state a opts e))). ?I s' \<and> unconv s')"
  proof (rule run_states_invariant [where I = ?I and Q = ?Q])
    show "?I (initial_state a opts e)"
      using consistent_initial [of a p opts e]
      by (simp add: counter_at_test_def consistent_def) (simp add: initial_state_def)
  next
    fix s assume "?I s" then show "?Q s" by simp
  next
    fix s s' assume I: "?I s" and u: "unconv s" and lb: "loop_body a p s = Inr s'"
    from I have c: "consistent a p s" by (simp add: counter_at_test_def)
    from consistent_step [OF c] lb have c': "consistent a p s'"
      by (simp add: final_state_def)
    from consistent_bound [OF c] have "(unconv s' \<and> loop_count s' \<noteq> 0 \<longrightarrow>
         loop_count s' < max_loop_count a) \<and> loop_count s' \<le> max 1 (max_loop_count a)"
    proof (cases rule: loop_body_cases [of a s p])
      case (converged en w h e')
      with lb I show ?thesis by (auto simp: after_call_def)
    next
      case (retry w e')
      with lb I show ?thesis by (auto simp: retry_state_def after_call_def)
    next
      case (exhausted w e')
      with lb show ?thesis by simp
    next
      case (other x e')
      with lb show ?thesis by simp
    qed
    with c' show "?I s'" by (simp add: counter_at_test_def consistent_def)
  next
    fix s x s' assume I: "?I s" and u: "unconv s" and lb: "loop_body a p s = Inl (x, s')"
    from I have c: "consistent a p s"
      and t: "loop_count s = 0 \<or> loop_count s < max_loop_count a"
      and q: "loop_count s \<le> max 1 (max_loop_count a)"
      using u by (auto simp: counter_at_test_def)
    from consistent_step [OF c] lb have c': "consistent a p s'"
      by (simp add: final_state_def)
    from consistent_bound [OF c] have "loop_count s' \<le> max 1 (max_loop_count a)"
    proof (cases rule: loop_body_cases [of a s p])
      case (converged en w h e')
      with lb show ?thesis by simp
    next
      case (retry w e')
      with lb show ?thesis by simp
    next
      case (exhausted w e')
      with lb t show ?thesis by (auto simp: retry_state_def after_call_def)
    next
      case (other y e')
      with lb q show ?thesis by (auto simp: after_call_def)
    qed
    with c' show "?Q s'" by (simp add: consistent_def)
  qed
  then show ?thesis by blast
qed

text \<open>At a raise of a ConvergenceError the counter is max 1 max_loop_count.\<close>

lemma exhausted_loop_count:
  assumes "fst (psi4_optimize a p opts e) = Inl (ConvergenceError w)"
  shows "loop_count (snd (psi4_optimize a p opts e)) = max 1 (max_loop_count a)"
proof (cases a p opts e rule: psi4_optimize_cases)
  case (returned s' opts' en w h e')
  with assms show ?thesis by (simp split: option.splits)
next
  case (raised x s1)
  with assms have x: "x = ConvergenceError w" by simp
  from raised(4) counter_run [of a p opts e]
  have t: "loop_count s1 = 0 \<or> loop_count s1 < max_loop_count a"
    and n: "0 \<le> loop_count s1"
    using raised(3) by (auto simp: counter_at_test_def consistent_def)
  from consistent_bound [OF raised(2)] show ?thesis
  proof (cases rule: loop_body_cases [of a s1 p])
    case (converged en w h e')
    with raised(5) show ?thesis by simp
  next
    case (retry w e')
    with raised(5) show ?thesis by simp
  next
    case (exhausted w1 e1)
    with raised(5) x have "snd (psi4_optimize a p opts e) =
          retry_state a p w1 (after_call s1 (Inl (ConvergenceError w1)) e1)"
      and "max_loop_count a \<le> loop_count s1 + 1"
      by auto
    with t n show ?thesis
      by (auto simp: retry_state_def after_call_def)
  next
    case (other y e1)
    with raised(5) x show ?thesis by auto
  qed
qed

subsection \<open>Convergence at the first attempt\<close>

text \<open>
  C8, as stated, says that a run that converges at the first attempt returns the energy,
  the wavefunction and the history of the engine. With a molecule given, the third
  component of the returned tuple is the dictionary with an empty tuple of coordinates,
  not the history 3 that \<open>optimize\<close> returned.
\<close>

theorem history_replaced_at_first_attempt:
  "molecule notebook_args = Some 5 \<and>
   optimize (stub 0) (method notebook_args)
     (set_options [(''MAXITER'', IntOpt (initial_iterations notebook_args)),
                   (''GEOM_MAXITER'', IntOpt (initial_iterations notebook_args))] []) 0
     = (Inr (1, 2, 3), 1) \<and>
   length (optimize_calls (snd (psi4_optimize notebook_args (stub 0) [] 0))) = 1 \<and>
   fst (psi4_optimize notebook_args (stub 0) [] 0) = Inr (1, 2, Dict [(''coordinates'', [])]) \<and>
   fst (psi4_optimize notebook_args (stub 0) [] 0) \<noteq> Inr (1, 2, History 3)"
proof -
  have "molecule notebook_args = Some 5" by (simp add: notebook_args_def)
  moreover have "optimize (stub 0) (method notebook_args)
     (set_options [(''MAXITER'', IntOpt (initial_iterations notebook_args)),
                   (''GEOM_MAXITER'', IntOpt (initial_iterations notebook_args))] []) 0
     = (Inr (1, 2, 3), 1)"
    by (simp add: stub_def)
  moreover have "length (optimize_calls (snd (psi4_optimize notebook_args (stub 0) [] 0))) = 1"
    by code_simp
  moreover have "fst (psi4_optimize notebook_args (stub 0) [] 0) =
      Inr (1, 2, Dict [(''coordinates'', [])])"
    by code_simp
  ultimately show ?thesis by simp
qed

text \<open>
  C8, amended. When the first call of \<open>optimize\<close> (made under the options that the driver has just
  set) returns, \<open>psi4_optimize\<close> has called \<open>optimize\<close> exactly once, \<open>loop_count\<close> is
  0, and it returns the energy and the wavefunction of that call with, as third
  component, the history of the engine when no molecule was given and the dictionary with
  an empty tuple of coordinates when one was.
\<close>

theorem first_attempt_converges:
  assumes "optimize p (method a)
             (set_options [(''MAXITER'', IntOpt (initial_iterations a)),
                           (''GEOM_MAXITER'', IntOpt (initial_iterations a))] opts) e
           = (Inr (en, w, h), e')"
  shows "fst (psi4_optimize a p opts e) =
           Inr (en, w, case molecule a of
                         None \<Rightarrow> History h
                       | Some m \<Rightarrow> Dict [(''coordinates'', [])]) \<and>
         length (optimize_calls (snd (psi4_optimize a p opts e))) = 1 \<and>
         loop_count (snd (psi4_optimize a p opts e)) = 0"
  unfolding converged_at_once [OF assms]
  by (simp add: after_loop_def after_call_def initial_state_def split: option.splits)

theorem first_attempt_converges_witness:
  "optimize (stub 0) (method notebook_args)
     (set_options [(''MAXITER'', IntOpt (initial_iterations notebook_args)),
                   (''GEOM_MAXITER'', IntOpt (initial_iterations notebook_args))] []) 0
     = (Inr (1, 2, 3), 1) \<and>
   fst (psi4_optimize notebook_args (stub 0) [] 0) = Inr (1, 2, Dict [(''coordinates'', [])]) \<and>
   length (optimize_calls (snd (psi4_optimize notebook_args (stub 0) [] 0))) = 1 \<and>
   loop_count (snd (psi4_optimize notebook_args (stub 0) [] 0)) = 0 \<and>
   molecule (bare_args 20) = None \<and>
   optimize (stub 0) (method (bare_args 20))
     (set_options [(''MAXITER'', IntOpt (initial_iterations (bare_args 20))),
                   (''GEOM_MAXITER'', IntOpt (initial_iterations (bare_args 20)))] []) 0
     = (Inr (1, 2, 3), 1) \<and>
   fst (psi4_optimize (bare_args 20) (stub 0) [] 0) = Inr (1, 2, History 3) \<and>
   length (optimize_calls (snd (psi4_optimize (bare_args 20) (stub 0) [] 0))) = 1 \<and>
   loop_count (snd (psi4_optimize (bare_args 20) (stub 0) [] 0)) = 0"
proof -
  have h: "optimize (stub 0) (method notebook_args)
     (set_options [(''MAXITER'', IntOpt (initial_iterations notebook_args)),
                   (''GEOM_MAXITER'', IntOpt (initial_iterations notebook_args))] []) 0
     = (Inr (1, 2, 3), 1)"
    by (simp add: stub_def)
  have k: "optimize (stub 0) (method (bare_args 20))
     (set_options [(''MAXITER'', IntOpt (initial_iterations (bare_args 20))),
                   (''GEOM_MAXITER'', IntOpt (initial_iterations (bare_args 20)))] []) 0
     = (Inr (1, 2, 3), 1)"
    by (simp add: stub_def)
  have n: "molecule (bare_args 20) = None" by (simp add: bare_args_def)
  from first_attempt_converges [OF h] first_attempt_converges [OF k] h k n show ?thesis
    by (simp add: notebook_args_def bare_args_def)
qed

subsection \<open>Saved wavefunctions\<close>

text \<open>
  C6. At the end of every run of \<open>psi4_optimize\<close> the calls of \<open>to_file\<close> are, in order,
  one for each call of \<open>optimize\<close> that raised a \<open>ConvergenceError\<close>: the wavefunction of
  that error, written to the name that \<open>get_scratch_filename\<close> gives for the fixed unit 180.
  Their number is \<open>loop_count\<close>. When the first call of \<open>optimize\<close> returns, nothing is
  written. Pass by pass: from every state at which a pass of the loop starts, the pass
  ends in a state of the run; it has made one call of \<open>optimize\<close>, on the options and the
  hidden state of the engine at its start; if that call raised a \<open>ConvergenceError\<close> with
  wavefunction \<open>u\<close>, the pass has made exactly one more call of \<open>to_file\<close>, of \<open>u\<close> to the
  name for unit 180, and the engine is in the state that this call left; otherwise the
  pass has written nothing.
\<close>

theorem one_write_per_failed_attempt:
  "to_file_calls (snd (psi4_optimize a p opts e)) =
     map (\<lambda>f. (get_scratch_filename p (fst f) 180, fst f))
       (failures (optimize_calls (snd (psi4_optimize a p opts e)))) \<and>
   int (length (to_file_calls (snd (psi4_optimize a p opts e)))) =
     loop_count (snd (psi4_optimize a p opts e)) \<and>
   (optimize p (method a)
      (set_options [(''MAXITER'', IntOpt (initial_iterations a)),
                    (''GEOM_MAXITER'', IntOpt (initial_iterations a))] opts) e
      = (Inr (en, w, h), e') \<longrightarrow>
    to_file_calls (snd (psi4_optimize a p opts e)) = []) \<and>
   (\<forall>s1 \<in> set (butlast (run_states a p (initial_state a opts e))).
      final_state (loop_body a p s1) \<in> set (run_states a p (initial_state a opts e)) \<and>
      optimize_calls (final_state (loop_body a p s1)) =
        optimize_calls s1 @ [(options s1, optimize p (method a) (options s1) (engine s1))] \<and>
      (\<forall>u e1. optimize p (method a) (options s1) (engine s1) = (Inl (ConvergenceError u), e1) \<longrightarrow>
         to_file_calls (final_state (loop_body a p s1)) =
           to_file_calls s1 @ [(get_scratch_filename p u 180, u)] \<and>
         engine (final_state (loop_body a p s1)) =
           to_file p u (get_scratch_filename p u 180) e1) \<and>
      ((\<forall>u e1. optimize p (method a) (options s1) (engine s1) \<noteq> (Inl (ConvergenceError u), e1)) \<longrightarrow>
         to_file_calls (final_state (loop_body a p s1)) = to_file_calls s1))"
proof (intro conjI impI ballI)
  from final_consistent [of a p opts e]
  show "to_file_calls (snd (psi4_optimize a p opts e)) =
     map (\<lambda>f. (get_scratch_filename p (fst f) 180, fst f))
       (failures (optimize_calls (snd (psi4_optimize a p opts e))))"
    by (simp add: consistent_def)
  from final_consistent [of a p opts e]
  show "int (length (to_file_calls (snd (psi4_optimize a p opts e)))) =
     loop_count (snd (psi4_optimize a p opts e))"
    by (simp add: consistent_def)
next
  assume "optimize p (method a)
      (set_options [(''MAXITER'', IntOpt (initial_iterations a)),
                    (''GEOM_MAXITER'', IntOpt (initial_iterations a))] opts) e
      = (Inr (en, w, h), e')"
  then show "to_file_calls (snd (psi4_optimize a p opts e)) = []"
    by (simp add: converged_at_once after_loop_calls after_call_def initial_state_def)
next
  fix s1 assume "s1 \<in> set (butlast (run_states a p (initial_state a opts e)))"
  then show "final_state (loop_body a p s1) \<in> set (run_states a p (initial_state a opts e))"
    by (rule run_states_final)
next
  fix s1 assume s1: "s1 \<in> set (butlast (run_states a p (initial_state a opts e)))"
  with at_test_run [of a p opts e] have "consistent a p s1" by (simp add: at_test_def)
  from consistent_bound [OF this]
  show "optimize_calls (final_state (loop_body a p s1)) =
        optimize_calls s1 @ [(options s1, optimize p (method a) (options s1) (engine s1))]"
    by (cases rule: loop_body_cases [of a s1 p])
       (simp_all add: final_state_def retry_state_def after_call_def)
next
  fix s1 assume s1: "s1 \<in> set (butlast (run_states a p (initial_state a opts e)))"
  with at_test_run [of a p opts e] have "consistent a p s1" by (simp add: at_test_def)
  from consistent_bound [OF this]
  show "\<forall>u e1. optimize p (method a) (options s1) (engine s1) = (Inl (ConvergenceError u), e1) \<longrightarrow>
         to_file_calls (final_state (loop_body a p s1)) =
           to_file_calls s1 @ [(get_scratch_filename p u 180, u)] \<and>
         engine (final_state (loop_body a p s1)) =
           to_file p u (get_scratch_filename p u 180) e1"
    by (cases rule: loop_body_cases [of a s1 p])
       (simp_all add: final_state_def retry_state_def after_call_def)
next
  fix s1 assume s1: "s1 \<in> set (butlast (run_states a p (initial_state a opts e)))"
    and n: "\<forall>u e1. optimize p (method a) (options s1) (engine s1) \<noteq> (Inl (ConvergenceError u), e1)"
  with at_test_run [of a p opts e] have "consistent a p s1" by (simp add: at_test_def)
  from consistent_bound [OF this] n
  show "to_file_calls (final_state (loop_body a p s1)) = to_file_calls s1"
    by (cases rule: loop_body_cases [of a s1 p])
       (simp_all add: final_state_def after_call_def)
qed

theorem one_write_per_failed_attempt_witness:
  "optimize (stub 0) (method notebook_args)
     (set_options [(''MAXITER'', IntOpt (initial_iterations notebook_args)),
                   (''GEOM_MAXITER'', IntOpt (initial_iterations notebook_args))] []) 0
     = (Inr (1, 2, 3), 1) \<and>
   to_file_calls (snd (psi4_optimize notebook_args (stub 0) [] 0)) = [] \<and>
   to_file_calls (snd (psi4_optimize notebook_args (stub 3) [] 0)) =
     [(''psi.180'', 100), (''psi.180'', 101), (''psi.180'', 102)] \<and>
   loop_count (snd (psi4_optimize notebook_args (stub 3) [] 0)) = 3 \<and>
   initial_state notebook_args [] (0::nat)
     \<in> set (butlast (run_states notebook_args (stub 3) (initial_state notebook_args [] (0::nat)))) \<and>
   optimize (stub 3) (method notebook_args) (options (initial_state notebook_args [] (0::nat)))
     (engine (initial_state notebook_args [] (0::nat))) = (Inl (ConvergenceError 100), 1) \<and>
   to_file_calls (final_state (loop_body notebook_args (stub 3) (initial_state notebook_args [] (0::nat))))
     = to_file_calls (initial_state notebook_args [] (0::nat)) @ [(''psi.180'', 100)] \<and>
   to_file_calls (initial_state notebook_args [] (0::nat)) = []"
proof -
  let ?s0 = "initial_state notebook_args [] (0::nat)"
  have h: "optimize (stub 0) (method notebook_args)
     (set_options [(''MAXITER'', IntOpt (initial_iterations notebook_args)),
                   (''GEOM_MAXITER'', IntOpt (initial_iterations notebook_args))] []) 0
     = (Inr (1, 2, 3), 1)"
    by (simp add: stub_def)
  from one_write_per_failed_attempt [of notebook_args "stub 0" "[]" 0 1 2 3 1] h
  have a: "to_file_calls (snd (psi4_optimize notebook_args (stub 0) [] 0)) = []"
    by blast
  have f: "map (\<lambda>f. (get_scratch_filename (stub 3) (fst f) 180, fst f))
       (failures (optimize_calls (snd (psi4_optimize notebook_args (stub 3) [] 0))))
     = [(''psi.180'', 100), (''psi.180'', 101), (''psi.180'', 102)]"
    by code_simp
  note t = one_write_per_failed_attempt [of notebook_args "stub 3" "[]" 0 1 2 3 1]
  from t have b: "to_file_calls (snd (psi4_optimize notebook_args (stub 3) [] 0)) =
     [(''psi.180'', 100), (''psi.180'', 101), (''psi.180'', 102)]"
    unfolding f by blast
  from t have "int (length (to_file_calls (snd (psi4_optimize notebook_args (stub 3) [] 0)))) =
     loop_count (snd (psi4_optimize notebook_args (stub 3) [] 0))"
    by blast
  then have c: "loop_count (snd (psi4_optimize notebook_args (stub 3) [] 0)) = 3"
    unfolding b by simp
  have u: "unconv ?s0" by (simp add: initial_state_def)
  have 1: "?s0 \<in> set (butlast (run_states notebook_args (stub 3) ?s0))"
    by (rule run_states_unconv_butlast [OF u])
  have 2: "optimize (stub 3) (method notebook_args) (options ?s0) (engine ?s0)
             = (Inl (ConvergenceError 100), 1)"
    by (simp add: stub_def initial_state_def)
  have 3: "get_scratch_filename (stub 3) 100 180 = ''psi.180''"
    by (simp add: stub_def)
  from t [THEN conjunct2, THEN conjunct2, THEN conjunct2, THEN bspec, OF 1,
          THEN conjunct2, THEN conjunct2, THEN conjunct1, THEN spec, THEN spec, THEN mp,
          OF 2, THEN conjunct1]
  have "to_file_calls (final_state (loop_body notebook_args (stub 3) ?s0)) =
           to_file_calls ?s0 @ [(get_scratch_filename (stub 3) 100 180, 100)]" .
  then have d: "to_file_calls (final_state (loop_body notebook_args (stub 3) ?s0)) =
           to_file_calls ?s0 @ [(''psi.180'', 100)]"
    unfolding 3 .
  have 4: "to_file_calls ?s0 = []" by (simp add: initial_state_def)
  from h a b c 1 2 d 4 show ?thesis by blast
qed

subsection \<open>The returned trajectory\<close>

text \<open>
  C10. When a molecule \<open>m\<close> is given and \<open>psi4_optimize\<close> returns \<open>(en, w, t)\<close>, then \<open>t\<close> is
  the dictionary whose only key \<open>coordinates\<close> holds the arrays taken from \<open>m\<close> at the
  failed attempts, in their order; the last call of \<open>optimize\<close> returned \<open>en\<close>, \<open>w\<close> and a
  history \<open>h\<close>, and \<open>t\<close> is not that history. When the first call returns, the tuple of
  coordinates is empty.
\<close>

theorem coordinates_replace_history:
  assumes "molecule a = Some m"
    and "fst (psi4_optimize a p opts e) = Inr (en, w, t)"
  shows "t = Dict [(''coordinates'',
               map (\<lambda>f. snapshot p m (snd f))
                 (failures (optimize_calls (snd (psi4_optimize a p opts e)))))] \<and>
         (\<exists>opts' h e'.
            last (optimize_calls (snd (psi4_optimize a p opts e))) = (opts', Inr (en, w, h), e') \<and>
            t \<noteq> History h) \<and>
         (optimize p (method a)
            (set_options [(''MAXITER'', IntOpt (initial_iterations a)),
                          (''GEOM_MAXITER'', IntOpt (initial_iterations a))] opts) e
            = (Inr r, e0) \<longrightarrow>
          t = Dict [(''coordinates'', [])])"
proof (cases a p opts e rule: psi4_optimize_cases)
  case (raised x s1)
  with assms(2) show ?thesis by simp
next
  case (returned s' opts' en' w' h e')
  from returned(6) assms have eq: "en' = en" "w' = w"
    and t: "t = Dict [(''coordinates'',
               map (\<lambda>f. snapshot p m (snd f)) (failures (optimize_calls s')))]"
    and s: "optimize_calls (snd (psi4_optimize a p opts e)) = optimize_calls s'"
    by simp_all
  have first: "t = Dict [(''coordinates'', [])]"
    if "optimize p (method a)
            (set_options [(''MAXITER'', IntOpt (initial_iterations a)),
                          (''GEOM_MAXITER'', IntOpt (initial_iterations a))] opts) e
            = (Inr r, e0)"
  proof -
    obtain en1 w1 h1 where "r = (en1, w1, h1)" by (cases r)
    with that have "optimize_calls (snd (psi4_optimize a p opts e)) =
        [(options (initial_state a opts e), Inr (en1, w1, h1), e0)]"
      by (simp add: converged_at_once after_loop_calls after_call_def initial_state_def)
    with s have c: "optimize_calls s' = [(options (initial_state a opts e), Inr (en1, w1, h1), e0)]"
      by simp
    have "failures (optimize_calls s') = []"
      unfolding c by simp
    with t show ?thesis by simp
  qed
  from returned(5) eq s t first show ?thesis by auto
qed

theorem coordinates_replace_history_witness:
  "molecule notebook_args = Some 5 \<and>
   fst (psi4_optimize notebook_args (stub 0) [] 0) = Inr (1, 2, Dict [(''coordinates'', [])]) \<and>
   optimize (stub 0) (method notebook_args)
     (set_options [(''MAXITER'', IntOpt (initial_iterations notebook_args)),
                   (''GEOM_MAXITER'', IntOpt (initial_iterations notebook_args))] []) 0
     = (Inr (1, 2, 3), 1) \<and>
   fst (psi4_optimize notebook_args (stub 3) [] 0) =
     Inr (1, 2, Dict [(''coordinates'', [1001, 1002, 1003])]) \<and>
   Dict [(''coordinates'', [1001, 1002, 1003])] =
     Dict [(''coordinates'',
        map (\<lambda>f. snapshot (stub 3) 5 (snd f))
          (failures (optimize_calls (snd (psi4_optimize notebook_args (stub 3) [] 0)))))]"
proof -
  have m: "molecule notebook_args = Some 5" by (simp add: notebook_args_def)
  have r0: "fst (psi4_optimize notebook_args (stub 0) [] 0) =
              Inr (1, 2, Dict [(''coordinates'', [])])"
    by code_simp
  have h: "optimize (stub 0) (method notebook_args)
     (set_options [(''MAXITER'', IntOpt (initial_iterations notebook_args)),
                   (''GEOM_MAXITER'', IntOpt (initial_iterations notebook_args))] []) 0
     = (Inr (1, 2, 3), 1)"
    by (simp add: stub_def)
  have r3: "fst (psi4_optimize notebook_args (stub 3) [] 0) =
     Inr (1, 2, Dict [(''coordinates'', [1001, 1002, 1003])])"
    by code_simp
  from coordinates_replace_history [OF m r0, of "(1, 2, 3)" 1]
    coordinates_replace_history [OF m r3] m r0 h r3
  show ?thesis by simp
qed


subsection \<open>The error that reaches the caller\<close>

text \<open>
  C4, as stated, says that at the ceiling the error of the first failed attempt
  is raised again. With \<open>max_loop_count = 2\<close> and an engine whose first call raises a
  \<open>ConvergenceError\<close> with wavefunction 100 and whose second call raises one with
  wavefunction 101, the caller gets the second error, not the first.
\<close>

theorem first_error_not_reraised:
  "fst (snd (hd (optimize_calls (snd (psi4_optimize (bare_args 2) stubborn [] 0))))) =
     Inl (ConvergenceError 100) \<and>
   fst (psi4_optimize (bare_args 2) stubborn [] 0) = Inl (ConvergenceError 101) \<and>
   fst (psi4_optimize (bare_args 2) stubborn [] 0) \<noteq> Inl (ConvergenceError 100)"
  by code_simp

text \<open>
  C4, amended. \<open>raise cerr\<close> raises the error caught in the same pass. Whenever a
  call of \<open>optimize\<close> made by the run raises a \<open>ConvergenceError\<close> while
  \<open>max_loop_count \<le> loop_count + 1\<close>, that same error is what \<open>psi4_optimize\<close> raises; and
  whenever \<open>psi4_optimize\<close> raises a \<open>ConvergenceError\<close>, it is the error of the last call
  of \<open>optimize\<close>, and \<open>loop_count\<close> has reached \<open>max_loop_count\<close>. Nothing follows the
  raise: the state of the result is the state at the raise.
\<close>

theorem reraises_latest_convergence_error:
  "(\<forall>s1 \<in> set (butlast (run_states a p (initial_state a opts e))).
      optimize p (method a) (options s1) (engine s1) = (Inl (ConvergenceError w), e') \<and>
      max_loop_count a \<le> loop_count s1 + 1 \<longrightarrow>
      fst (psi4_optimize a p opts e) = Inl (ConvergenceError w)) \<and>
   (fst (psi4_optimize a p opts e) = Inl (ConvergenceError w) \<longrightarrow>
      optimize_calls (snd (psi4_optimize a p opts e)) \<noteq> [] \<and>
      fst (snd (last (optimize_calls (snd (psi4_optimize a p opts e))))) =
        Inl (ConvergenceError w) \<and>
      max_loop_count a \<le> loop_count (snd (psi4_optimize a p opts e)))"
proof (intro conjI ballI impI)
  fix s1
  assume s1: "s1 \<in> set (butlast (run_states a p (initial_state a opts e)))"
    and "optimize p (method a) (options s1) (engine s1) = (Inl (ConvergenceError w), e') \<and>
      max_loop_count a \<le> loop_count s1 + 1"
  then have o: "optimize p (method a) (options s1) (engine s1) = (Inl (ConvergenceError w), e')"
    and m: "max_loop_count a \<le> loop_count s1 + 1"
    by simp_all
  from s1 at_test_run [of a p opts e] have "consistent a p s1"
    by (simp add: at_test_def)
  from consistent_bound [OF this]
  have "\<exists>s'. loop_body a p s1 = Inl (ConvergenceError w, s')"
  proof (cases rule: loop_body_cases [of a s1 p])
    case (converged en w h e')
    with o show ?thesis by simp
  next
    case (retry w e')
    with m show ?thesis by simp
  next
    case (exhausted w1 e1)
    with o show ?thesis by simp
  next
    case (other x e')
    with o show ?thesis by simp
  qed
  then obtain s' where "loop_body a p s1 = Inl (ConvergenceError w, s')" ..
  from psi4_optimize_raised [OF s1 this]
  show "fst (psi4_optimize a p opts e) = Inl (ConvergenceError w)" by simp
next
  assume r: "fst (psi4_optimize a p opts e) = Inl (ConvergenceError w)"
  have "optimize_calls (snd (psi4_optimize a p opts e)) \<noteq> [] \<and>
      fst (snd (last (optimize_calls (snd (psi4_optimize a p opts e))))) =
        Inl (ConvergenceError w) \<and>
      max_loop_count a \<le> loop_count (snd (psi4_optimize a p opts e))"
  proof (cases a p opts e rule: psi4_optimize_cases)
    case (returned s' opts' en w h e')
    with r show ?thesis by (simp split: option.splits)
  next
    case (raised x s1)
    with r have x: "x = ConvergenceError w" by simp
    from consistent_bound [OF raised(2)] show ?thesis
    proof (cases rule: loop_body_cases [of a s1 p])
      case (converged en w h e')
      with raised(5) show ?thesis by simp
    next
      case (retry w e')
      with raised(5) show ?thesis by simp
    next
      case (exhausted w1 e1)
      with raised(5) x have "snd (psi4_optimize a p opts e) =
          retry_state a p w (after_call s1 (Inl (ConvergenceError w)) e1)"
        and "max_loop_count a \<le> loop_count s1 + 1"
        by auto
      then show ?thesis
        by (simp add: retry_state_def after_call_def)
    next
      case (other y e1)
      with raised(5) x show ?thesis by simp
    qed
  qed
  then show "optimize_calls (snd (psi4_optimize a p opts e)) \<noteq> []"
    and "fst (snd (last (optimize_calls (snd (psi4_optimize a p opts e))))) =
        Inl (ConvergenceError w)"
    and "max_loop_count a \<le> loop_count (snd (psi4_optimize a p opts e))"
    by simp_all
qed

theorem reraises_latest_convergence_error_witness:
  "run_states (bare_args 2) stubborn (initial_state (bare_args 2) [] 0) ! 1
     \<in> set (butlast (run_states (bare_args 2) stubborn (initial_state (bare_args 2) [] 0))) \<and>
   optimize stubborn (method (bare_args 2))
     (options (run_states (bare_args 2) stubborn (initial_state (bare_args 2) [] 0) ! 1))
     (engine (run_states (bare_args 2) stubborn (initial_state (bare_args 2) [] 0) ! 1))
     = (Inl (ConvergenceError 101), 2) \<and>
   max_loop_count (bare_args 2)
     \<le> loop_count (run_states (bare_args 2) stubborn (initial_state (bare_args 2) [] 0) ! 1) + 1 \<and>
   fst (psi4_optimize (bare_args 2) stubborn [] 0) = Inl (ConvergenceError 101) \<and>
   fst (snd (last (optimize_calls (snd (psi4_optimize (bare_args 2) stubborn [] 0))))) =
     Inl (ConvergenceError 101) \<and>
   max_loop_count (bare_args 2) \<le> loop_count (snd (psi4_optimize (bare_args 2) stubborn [] 0))"
proof -
  let ?rs = "run_states (bare_args 2) stubborn (initial_state (bare_args 2) [] 0)"
  have 1: "?rs ! 1 \<in> set (butlast ?rs)"
    by code_simp
  have 2: "optimize stubborn (method (bare_args 2)) (options (?rs ! 1)) (engine (?rs ! 1))
     = (Inl (ConvergenceError 101), 2)"
    by code_simp
  have 3: "max_loop_count (bare_args 2) \<le> loop_count (?rs ! 1) + 1"
    by code_simp
  from reraises_latest_convergence_error [of "bare_args 2" stubborn "[]" 0 101 2] 1 2 3
  show ?thesis by blast
qed




subsection \<open>An engine that never converges\<close>

lemma never_converges_loop:
  "never_converges p \<Longrightarrow> consistent a p s \<Longrightarrow> unconv s \<Longrightarrow>
     \<exists>w s'. while_loop a p s = Inl (ConvergenceError w, s') \<and>
            loop_count s' = max (loop_count s + 1) (max_loop_count a)"
proof (induction a p s rule: while_loop.induct)
  case (1 a p s)
  note nc = "1.prems"(1) and c = "1.prems"(2) and u = "1.prems"(3)
  from nc obtain w0 e0 where
    o: "optimize p (method a) (options s) (engine s) = (Inl (ConvergenceError w0), e0)"
    unfolding never_converges_def by blast
  from consistent_bound [OF c] show ?case
  proof (cases rule: loop_body_cases [of a s p])
    case (converged en w h e')
    with o show ?thesis by simp
  next
    case (other x e')
    with o show ?thesis by simp
  next
    case (exhausted w e')
    from while_loop_raise [OF u exhausted(3)] exhausted(2) show ?thesis
      by (simp add: retry_state_def after_call_def)
  next
    case (retry w e')
    let ?s2 = "retry_state a p w (after_call s (Inl (ConvergenceError w)) e')"
    from consistent_step [OF c] retry(3) have c2: "consistent a p ?s2"
      by (simp add: final_state_def)
    have u2: "unconv ?s2" using u by (simp add: retry_state_def after_call_def)
    have l2: "loop_count ?s2 = loop_count s + 1"
      by (simp add: retry_state_def after_call_def)
    from "1.IH" [OF u retry(3) nc c2 u2] obtain w' s' where
      "while_loop a p ?s2 = Inl (ConvergenceError w', s')"
      "loop_count s' = max (loop_count ?s2 + 1) (max_loop_count a)"
      by blast
    with retry(2) l2 while_loop_continue [OF u retry(3)] show ?thesis
      by simp
  qed
qed

lemma never_converges_all_failed:
  assumes "never_converges p"
  shows "length (failures (optimize_calls (snd (psi4_optimize a p opts e)))) =
         length (optimize_calls (snd (psi4_optimize a p opts e)))"
proof -
  let ?I = "\<lambda>s. consistent a p s \<and>
              length (failures (optimize_calls s)) = length (optimize_calls s)"
  have step: "?I (final_state (loop_body a p s))" if "?I s" for s
  proof -
    from that have c: "consistent a p s"
      and l: "length (failures (optimize_calls s)) = length (optimize_calls s)"
      by simp_all
    from assms obtain w0 e0 where
      o: "optimize p (method a) (options s) (engine s) = (Inl (ConvergenceError w0), e0)"
      unfolding never_converges_def by blast
    from consistent_bound [OF c]
    have "length (failures (optimize_calls (final_state (loop_body a p s)))) =
          length (optimize_calls (final_state (loop_body a p s)))"
    proof (cases rule: loop_body_cases [of a s p])
      case (converged en w h e')
      with o show ?thesis by simp
    next
      case (other x e')
      with o show ?thesis by simp
    next
      case (exhausted w e')
      with l show ?thesis
        by (simp add: final_state_def retry_state_def after_call_def failures_snoc)
    next
      case (retry w e')
      with l show ?thesis
        by (simp add: final_state_def retry_state_def after_call_def failures_snoc)
    qed
    with consistent_step [OF c] show ?thesis by simp
  qed
  have "\<forall>s' \<in> set (run_states a p (initial_state a opts e)). ?I s'"
  proof (rule conjunct1 [OF run_states_invariant [where I = ?I]])
    show "?I (initial_state a opts e)"
      using consistent_initial [of a p opts e] by (simp add: initial_state_def)
  next
    fix s s' assume "?I s" and "loop_body a p s = Inr s'"
    with step [of s] show "?I s'" by (simp add: final_state_def)
  next
    fix s x s' assume "?I s" and "loop_body a p s = Inl (x, s')"
    with step [of s] show "?I s'" by (simp add: final_state_def)
  qed
  then have "?I (last (run_states a p (initial_state a opts e)))"
    using last_run_states_mem by blast
  moreover from psi4_optimize_state [of a p opts e]
  obtain t where "snd (psi4_optimize a p opts e) =
         (last (run_states a p (initial_state a opts e)))\<lparr>traj := t\<rparr>" ..
  ultimately show ?thesis by simp
qed

lemma never_converges_run:
  assumes "never_converges p"
  shows "\<exists>w. fst (psi4_optimize a p opts e) = Inl (ConvergenceError w)"
    and "loop_count (snd (psi4_optimize a p opts e)) = max 1 (max_loop_count a)"
proof -
  from never_converges_loop [OF assms consistent_initial, of a opts e]
  obtain w s' where "while_loop a p (initial_state a opts e) = Inl (ConvergenceError w, s')"
    "loop_count s' = max (loop_count (initial_state a opts e) + 1) (max_loop_count a)"
    by (auto simp: initial_state_def)
  then have "psi4_optimize a p opts e = (Inl (ConvergenceError w), s')"
    and "loop_count s' = max 1 (max_loop_count a)"
    by (simp_all add: psi4_optimize_def initial_state_def)
  then show "\<exists>w. fst (psi4_optimize a p opts e) = Inl (ConvergenceError w)"
    and "loop_count (snd (psi4_optimize a p opts e)) = max 1 (max_loop_count a)"
    by simp_all
qed

lemma never_converges_stubborn: "never_converges stubborn"
  by (simp add: never_converges_def stubborn_def)

text \<open>
  C2, as stated, says that \<open>max_loop_count + 1\<close> calls of \<open>optimize\<close> are made before the
  failure reaches the caller. With \<open>max_loop_count = 1\<close> and an engine that never converges
  there is one call: after the first failure \<open>loop_count\<close> is 1, and
  \<open>max_loop_count <= loop_count\<close> holds.
\<close>

theorem one_retry_allowed_one_invocation:
  "never_converges stubborn \<and>
   max_loop_count (bare_args 1) = 1 \<and>
   length (optimize_calls (snd (psi4_optimize (bare_args 1) stubborn [] 0))) = 1 \<and>
   fst (psi4_optimize (bare_args 1) stubborn [] 0) = Inl (ConvergenceError 100) \<and>
   int (length (optimize_calls (snd (psi4_optimize (bare_args 1) stubborn [] 0))))
     \<noteq> max_loop_count (bare_args 1) + 1"
proof -
  have "max_loop_count (bare_args 1) = 1"
    by code_simp
  moreover have "length (optimize_calls (snd (psi4_optimize (bare_args 1) stubborn [] 0))) = 1"
    by code_simp
  moreover have "fst (psi4_optimize (bare_args 1) stubborn [] 0) = Inl (ConvergenceError 100)"
    by code_simp
  ultimately show ?thesis
    using never_converges_stubborn by simp
qed

text \<open>
  C2, amended. Against an engine that never converges, \<open>psi4_optimize\<close> calls
  \<open>optimize\<close> exactly \<open>max 1 max_loop_count\<close> times (\<open>max_loop_count\<close> times when that is at
  least 1, once when it is 0 or less) and then raises a \<open>ConvergenceError\<close>.
\<close>

theorem never_converging_invocations:
  assumes "never_converges p"
  shows "int (length (optimize_calls (snd (psi4_optimize a p opts e)))) =
           max 1 (max_loop_count a) \<and>
         (\<exists>w. fst (psi4_optimize a p opts e) = Inl (ConvergenceError w))"
proof -
  from final_consistent [of a p opts e]
  have "loop_count (snd (psi4_optimize a p opts e)) =
        int (length (failures (optimize_calls (snd (psi4_optimize a p opts e)))))"
    by (simp add: consistent_def)
  with never_converges_all_failed [OF assms, of a opts e] never_converges_run [OF assms, of a opts e]
  show ?thesis by simp
qed

theorem never_converging_invocations_witness:
  "never_converges stubborn \<and>
   max_loop_count (bare_args 3) = 3 \<and>
   length (optimize_calls (snd (psi4_optimize (bare_args 3) stubborn [] 0))) = 3 \<and>
   max_loop_count (bare_args 0) = 0 \<and>
   length (optimize_calls (snd (psi4_optimize (bare_args 0) stubborn [] 0))) = 1"
  using never_converging_invocations [OF never_converges_stubborn, of "bare_args 3" "[]" 0]
    never_converging_invocations [OF never_converges_stubborn, of "bare_args 0" "[]" 0]
    never_converges_stubborn
  by (simp add: bare_args_def notebook_args_def)


subsection \<open>The accumulator of geometries\<close>

text \<open>
  C3, as stated, says that after exhaustion the accumulator holds \<open>max_loop_count\<close> arrays.
  With \<open>max_loop_count = 0\<close>, a molecule and an engine that never converges, the one attempt
  that is always made fails and leaves one array.
\<close>

theorem single_snapshot_at_zero_ceiling:
  "never_converges stubborn \<and>
   molecule (mol_args 0) = Some 5 \<and>
   max_loop_count (mol_args 0) = 0 \<and>
   fst (psi4_optimize (mol_args 0) stubborn [] 0) = Inl (ConvergenceError 100) \<and>
   molecule_traj (snd (psi4_optimize (mol_args 0) stubborn [] 0)) = Some [1001] \<and>
   int (length [1001 :: nat]) \<noteq> max_loop_count (mol_args 0)"
proof -
  have "molecule (mol_args 0) = Some 5" and "max_loop_count (mol_args 0) = 0"
    by (simp_all add: mol_args_def notebook_args_def)
  moreover have "fst (psi4_optimize (mol_args 0) stubborn [] 0) = Inl (ConvergenceError 100)"
    by code_simp
  moreover have "molecule_traj (snd (psi4_optimize (mol_args 0) stubborn [] 0)) = Some [1001]"
    by code_simp
  ultimately show ?thesis
    using never_converges_stubborn by simp
qed

text \<open>
  C3, amended. Without a molecule \<open>molecule_traj\<close> is never assigned. With a molecule
  \<open>m\<close> it holds, at the end of every run, one array for each call of \<open>optimize\<close> that raised
  a \<open>ConvergenceError\<close>, in the order of the calls, each taken from \<open>m\<close> in the state the
  failing call left. Whenever \<open>psi4_optimize\<close> raises a \<open>ConvergenceError\<close>, as it does
  against an engine that never converges, its length at the raise is
  \<open>max 1 max_loop_count\<close>, which is \<open>max_loop_count\<close> when that is at least 1. When the
  first call returns it is empty.
\<close>

theorem one_snapshot_per_failed_attempt:
  "(molecule a = None \<longrightarrow> molecule_traj (snd (psi4_optimize a p opts e)) = None) \<and>
   (molecule a = Some m \<longrightarrow>
      molecule_traj (snd (psi4_optimize a p opts e)) =
        Some (map (\<lambda>f. snapshot p m (snd f))
               (failures (optimize_calls (snd (psi4_optimize a p opts e)))))) \<and>
   (molecule a = Some m \<and> fst (psi4_optimize a p opts e) = Inl (ConvergenceError u) \<longrightarrow>
      map_option (\<lambda>t. int (length t)) (molecule_traj (snd (psi4_optimize a p opts e))) =
        Some (max 1 (max_loop_count a))) \<and>
   (molecule a = Some m \<and> never_converges p \<longrightarrow>
      map_option (\<lambda>t. int (length t)) (molecule_traj (snd (psi4_optimize a p opts e))) =
        Some (max 1 (max_loop_count a))) \<and>
   (molecule a = Some m \<and>
    optimize p (method a)
      (set_options [(''MAXITER'', IntOpt (initial_iterations a)),
                    (''GEOM_MAXITER'', IntOpt (initial_iterations a))] opts) e
      = (Inr (en, w, h), e') \<longrightarrow>
      molecule_traj (snd (psi4_optimize a p opts e)) = Some [])"
proof (intro conjI impI)
  assume "molecule a = None"
  with final_consistent [of a p opts e]
  show "molecule_traj (snd (psi4_optimize a p opts e)) = None"
    by (simp add: consistent_def)
next
  assume "molecule a = Some m"
  with final_consistent [of a p opts e]
  show "molecule_traj (snd (psi4_optimize a p opts e)) =
        Some (map (\<lambda>f. snapshot p m (snd f))
               (failures (optimize_calls (snd (psi4_optimize a p opts e)))))"
    by (simp add: consistent_def)
next
  assume "molecule a = Some m \<and> fst (psi4_optimize a p opts e) = Inl (ConvergenceError u)"
  then have m: "molecule a = Some m"
    and r: "fst (psi4_optimize a p opts e) = Inl (ConvergenceError u)" by simp_all
  from final_consistent [of a p opts e] m
  have "molecule_traj (snd (psi4_optimize a p opts e)) =
        Some (map (\<lambda>f. snapshot p m (snd f))
               (failures (optimize_calls (snd (psi4_optimize a p opts e)))))"
    and "loop_count (snd (psi4_optimize a p opts e)) =
        int (length (failures (optimize_calls (snd (psi4_optimize a p opts e)))))"
    by (simp_all add: consistent_def)
  with exhausted_loop_count [OF r]
  show "map_option (\<lambda>t. int (length t)) (molecule_traj (snd (psi4_optimize a p opts e))) =
        Some (max 1 (max_loop_count a))"
    by simp
next
  assume "molecule a = Some m \<and> never_converges p"
  then have m: "molecule a = Some m" and nc: "never_converges p" by simp_all
  from final_consistent [of a p opts e] m
  have "molecule_traj (snd (psi4_optimize a p opts e)) =
        Some (map (\<lambda>f. snapshot p m (snd f))
               (failures (optimize_calls (snd (psi4_optimize a p opts e)))))"
    and "loop_count (snd (psi4_optimize a p opts e)) =
        int (length (failures (optimize_calls (snd (psi4_optimize a p opts e)))))"
    by (simp_all add: consistent_def)
  with never_converges_run(2) [OF nc, of a opts e]
  show "map_option (\<lambda>t. int (length t)) (molecule_traj (snd (psi4_optimize a p opts e))) =
        Some (max 1 (max_loop_count a))"
    by simp
next
  assume "molecule a = Some m \<and>
    optimize p (method a)
      (set_options [(''MAXITER'', IntOpt (initial_iterations a)),
                    (''GEOM_MAXITER'', IntOpt (initial_iterations a))] opts) e
      = (Inr (en, w, h), e')"
  then show "molecule_traj (snd (psi4_optimize a p opts e)) = Some []"
    by (simp add: converged_at_once after_loop_calls after_call_def initial_state_def)
qed

theorem one_snapshot_per_failed_attempt_witness:
  "molecule (bare_args 3) = None \<and>
   molecule_traj (snd (psi4_optimize (bare_args 3) stubborn [] 0)) = None \<and>
   molecule (mol_args 3) = Some 5 \<and>
   fst (psi4_optimize (mol_args 3) (stub 3) [] 0) = Inl (ConvergenceError 102) \<and>
   molecule_traj (snd (psi4_optimize (mol_args 3) (stub 3) [] 0)) = Some [1001, 1002, 1003] \<and>
   map_option (\<lambda>t. int (length t))
     (molecule_traj (snd (psi4_optimize (mol_args 3) (stub 3) [] 0))) = Some 3 \<and>
   never_converges stubborn \<and>
   map_option (\<lambda>t. int (length t))
     (molecule_traj (snd (psi4_optimize (mol_args 3) stubborn [] 0))) = Some 3 \<and>
   optimize (stub 0) (method (mol_args 3))
      (set_options [(''MAXITER'', IntOpt (initial_iterations (mol_args 3))),
                    (''GEOM_MAXITER'', IntOpt (initial_iterations (mol_args 3)))] []) 0
      = (Inr (1, 2, 3), 1) \<and>
   molecule_traj (snd (psi4_optimize (mol_args 3) (stub 0) [] 0)) = Some []"
proof -
  have 1: "molecule (bare_args 3) = None" by (simp add: bare_args_def)
  have 2: "molecule (mol_args 3) = Some 5" by (simp add: mol_args_def notebook_args_def)
  have 3: "optimize (stub 0) (method (mol_args 3))
      (set_options [(''MAXITER'', IntOpt (initial_iterations (mol_args 3))),
                    (''GEOM_MAXITER'', IntOpt (initial_iterations (mol_args 3)))] []) 0
      = (Inr (1, 2, 3), 1)"
    by (simp add: stub_def)
  have 4: "max 1 (max_loop_count (mol_args 3)) = 3" by (simp add: mol_args_def)
  have 5: "fst (psi4_optimize (mol_args 3) (stub 3) [] 0) = Inl (ConvergenceError 102)"
    by code_simp
  have 6: "map (\<lambda>f. snapshot (stub 3) 5 (snd f))
             (failures (optimize_calls (snd (psi4_optimize (mol_args 3) (stub 3) [] 0))))
           = [1001, 1002, 1003]"
    by code_simp
  from one_snapshot_per_failed_attempt [of "bare_args 3" stubborn "[]" 0 5 102 1 2 3 1] 1
  have a: "molecule_traj (snd (psi4_optimize (bare_args 3) stubborn [] 0)) = None"
    by blast
  from one_snapshot_per_failed_attempt [of "mol_args 3" "stub 3" "[]" 0 5 102 1 2 3 1] 2
  have "molecule_traj (snd (psi4_optimize (mol_args 3) (stub 3) [] 0)) =
        Some (map (\<lambda>f. snapshot (stub 3) 5 (snd f))
               (failures (optimize_calls (snd (psi4_optimize (mol_args 3) (stub 3) [] 0)))))"
    by blast
  then have b: "molecule_traj (snd (psi4_optimize (mol_args 3) (stub 3) [] 0)) =
      Some [1001, 1002, 1003]"
    unfolding 6 .
  from one_snapshot_per_failed_attempt [of "mol_args 3" "stub 3" "[]" 0 5 102 1 2 3 1] 2 5
  have "map_option (\<lambda>t. int (length t))
     (molecule_traj (snd (psi4_optimize (mol_args 3) (stub 3) [] 0))) =
       Some (max 1 (max_loop_count (mol_args 3)))"
    by blast
  then have c: "map_option (\<lambda>t. int (length t))
     (molecule_traj (snd (psi4_optimize (mol_args 3) (stub 3) [] 0))) = Some 3"
    unfolding 4 .
  from one_snapshot_per_failed_attempt [of "mol_args 3" stubborn "[]" 0 5 102 1 2 3 1] 2
    never_converges_stubborn
  have "map_option (\<lambda>t. int (length t))
     (molecule_traj (snd (psi4_optimize (mol_args 3) stubborn [] 0))) =
       Some (max 1 (max_loop_count (mol_args 3)))"
    by blast
  then have d: "map_option (\<lambda>t. int (length t))
     (molecule_traj (snd (psi4_optimize (mol_args 3) stubborn [] 0))) = Some 3"
    unfolding 4 .
  from one_snapshot_per_failed_attempt [of "mol_args 3" "stub 0" "[]" 0 5 102 1 2 3 1] 2 3
  have f: "molecule_traj (snd (psi4_optimize (mol_args 3) (stub 0) [] 0)) = Some []"
    by blast
  from 1 a 2 5 b c never_converges_stubborn d 3 f show ?thesis by blast
qed

subsection \<open>The retry counter\<close>

text \<open>
  C5, as stated, says that \<open>loop_count <= max_loop_count\<close> holds at every state of a run. With
  \<open>max_loop_count = 0\<close> and an engine that never converges, the state at the raise has
  \<open>loop_count = 1\<close>.
\<close>

theorem counter_exceeds_zero_ceiling:
  "max_loop_count (bare_args 0) = 0 \<and>
   snd (psi4_optimize (bare_args 0) stubborn [] 0)
     \<in> set (run_states (bare_args 0) stubborn (initial_state (bare_args 0) [] 0)) \<and>
   loop_count (snd (psi4_optimize (bare_args 0) stubborn [] 0)) = 1 \<and>
   \<not> loop_count (snd (psi4_optimize (bare_args 0) stubborn [] 0)) \<le> max_loop_count (bare_args 0)"
  by code_simp

text \<open>
  C5, amended. In every run \<open>loop_count\<close> is 0 at the start; at every state of the run it
  is the number of calls of \<open>optimize\<close> that have raised a \<open>ConvergenceError\<close> so far, and it
  is at most \<open>max 1 max_loop_count\<close>; and at every state from which a further pass of the
  loop starts it is 0 or below \<open>max_loop_count\<close>, so that a state in which it has gone
  beyond \<open>max_loop_count \<ge> 0\<close> is the last one.
\<close>

theorem loop_count_bounded:
  "loop_count (hd (run_states a p (initial_state a opts e))) = 0 \<and>
   (\<forall>s \<in> set (run_states a p (initial_state a opts e)).
      loop_count s = int (length (failures (optimize_calls s))) \<and>
      loop_count s \<le> max 1 (max_loop_count a)) \<and>
   (\<forall>s \<in> set (butlast (run_states a p (initial_state a opts e))).
      loop_count s = 0 \<or> loop_count s < max_loop_count a)"
proof -
  have "loop_count (hd (run_states a p (initial_state a opts e))) = 0"
    by (simp add: hd_run_states initial_state_def)
  moreover from counter_run [of a p opts e]
  have "\<forall>s \<in> set (butlast (run_states a p (initial_state a opts e))).
      loop_count s = 0 \<or> loop_count s < max_loop_count a"
    by (auto simp: counter_at_test_def)
  ultimately show ?thesis using counter_run [of a p opts e] by blast
qed

theorem loop_count_bounded_witness:
  "map loop_count (run_states (bare_args 3) stubborn (initial_state (bare_args 3) [] 0))
     = [0, 1, 2, 3] \<and>
   snd (psi4_optimize (bare_args 3) stubborn [] 0)
     \<in> set (run_states (bare_args 3) stubborn (initial_state (bare_args 3) [] 0)) \<and>
   loop_count (snd (psi4_optimize (bare_args 3) stubborn [] 0))
     = int (length (failures (optimize_calls (snd (psi4_optimize (bare_args 3) stubborn [] 0))))) \<and>
   loop_count (snd (psi4_optimize (bare_args 3) stubborn [] 0)) \<le> 3 \<and>
   initial_state (bare_args 3) [] 0
     \<in> set (butlast (run_states (bare_args 3) stubborn (initial_state (bare_args 3) [] 0))) \<and>
   loop_count (initial_state (bare_args 3) [] 0) = 0"
proof -
  let ?rs = "run_states (bare_args 3) stubborn (initial_state (bare_args 3) [] 0)"
  let ?s = "snd (psi4_optimize (bare_args 3) stubborn [] 0)"
  have 1: "map loop_count ?rs = [0, 1, 2, 3]" by code_simp
  have 2: "?s \<in> set ?rs" by code_simp
  have 3: "initial_state (bare_args 3) [] 0 \<in> set (butlast ?rs)" by code_simp
  have 4: "max 1 (max_loop_count (bare_args 3)) = 3" by (simp add: bare_args_def)
  have 5: "loop_count (initial_state (bare_args 3) [] 0) = 0" by (simp add: initial_state_def)
  from loop_count_bounded [of "bare_args 3" stubborn "[]" 0] 2
  have "loop_count ?s = int (length (failures (optimize_calls ?s))) \<and>
        loop_count ?s \<le> max 1 (max_loop_count (bare_args 3))"
    by blast
  with 1 2 3 4 5 show ?thesis by simp
qed


subsection \<open>The option dictionary\<close>

lemma options_at_initial: "options_at a opts (initial_state a opts e)"
  by (simp add: options_at_def initial_state_def map_of_set_options driver_options_def)

lemma options_at_step:
  assumes "consistent a p s \<and> options_at a opts s"
  shows "consistent a p (final_state (loop_body a p s)) \<and>
         options_at a opts (final_state (loop_body a p s))"
proof -
  from assms have c: "consistent a p s" and o: "options_at a opts s" by simp_all
  from c have n: "0 \<le> loop_count s" by (simp add: consistent_def)
  from consistent_bound [OF c] have "options_at a opts (final_state (loop_body a p s))"
  proof (cases rule: loop_body_cases [of a s p])
    case (converged en w h e')
    with o show ?thesis by (simp add: final_state_def options_at_def after_call_def)
  next
    case (retry w e')
    with o n show ?thesis
      by (simp add: final_state_def options_at_def after_call_def retry_state_def
            map_of_set_options driver_options_def)
  next
    case (exhausted w e')
    with o n show ?thesis
      by (simp add: final_state_def options_at_def after_call_def retry_state_def
            map_of_set_options driver_options_def)
  next
    case (other x e')
    with o show ?thesis by (simp add: final_state_def options_at_def after_call_def)
  qed
  with consistent_step [OF c] show ?thesis by simp
qed

lemma options_at_run:
  "\<forall>s \<in> set (run_states a p (initial_state a opts e)). consistent a p s \<and> options_at a opts s"
proof (rule conjunct1 [OF run_states_invariant
         [where I = "\<lambda>s. consistent a p s \<and> options_at a opts s"]])
  show "consistent a p (initial_state a opts e) \<and> options_at a opts (initial_state a opts e)"
    by (simp add: consistent_initial options_at_initial)
next
  fix s s' assume "consistent a p s \<and> options_at a opts s" and "loop_body a p s = Inr s'"
  with options_at_step [of a p s opts] show "consistent a p s' \<and> options_at a opts s'"
    by (simp add: final_state_def)
next
  fix s x s' assume "consistent a p s \<and> options_at a opts s" and "loop_body a p s = Inl (x, s')"
  with options_at_step [of a p s opts] show "consistent a p s' \<and> options_at a opts s'"
    by (simp add: final_state_def)
qed

lemma options_at_final: "options_at a opts (snd (psi4_optimize a p opts e))"
proof -
  from options_at_run [of a p opts e] last_run_states_mem [of a p "initial_state a opts e"]
  have "options_at a opts (last (run_states a p (initial_state a opts e)))" by blast
  moreover from psi4_optimize_state [of a p opts e]
  obtain t where "snd (psi4_optimize a p opts e) =
         (last (run_states a p (initial_state a opts e)))\<lparr>traj := t\<rparr>" ..
  ultimately show ?thesis by (simp add: options_at_def)
qed

lemma options_logged_initial: "options_logged a opts (initial_state a opts e)"
  by (simp add: options_logged_def initial_state_def first_options_def)

lemma options_logged_retry:
  assumes "options_logged a opts s" and "0 \<le> loop_count s"
  shows "options_logged a opts (retry_state a p w (after_call s r e'))"
proof -
  let ?s' = "retry_state a p w (after_call s r e')"
  from assms(1) have o1: "set_options_calls s =
      first_options a # replicate (nat (loop_count s)) (retry_options a)"
    and o2: "options s = fold set_options (set_options_calls s) opts"
    by (simp_all add: options_logged_def)
  have a: "set_options_calls ?s' = set_options_calls s @ [retry_options a]"
    and b: "options ?s' = set_options (retry_options a) (options s)"
    and c: "loop_count ?s' = loop_count s + 1"
    by (simp_all add: retry_state_def after_call_def retry_options_def)
  from assms(2) have suc: "nat (loop_count s + 1) = Suc (nat (loop_count s))" by simp
  have "set_options_calls ?s' =
      first_options a # replicate (nat (loop_count ?s')) (retry_options a)"
    unfolding a c suc o1 by (simp add: replicate_append_same)
  moreover have "options ?s' = fold set_options (set_options_calls ?s') opts"
    unfolding a b using o2 by simp
  ultimately show ?thesis by (simp add: options_logged_def)
qed

lemma options_logged_step:
  assumes "consistent a p s \<and> options_logged a opts s"
  shows "consistent a p (final_state (loop_body a p s)) \<and>
         options_logged a opts (final_state (loop_body a p s))"
proof -
  from assms have c: "consistent a p s" and o: "options_logged a opts s" by simp_all
  from c have n: "0 \<le> loop_count s" by (simp add: consistent_def)
  from consistent_bound [OF c] have "options_logged a opts (final_state (loop_body a p s))"
  proof (cases rule: loop_body_cases [of a s p])
    case (converged en w h e')
    with o show ?thesis by (simp add: final_state_def options_logged_def after_call_def)
  next
    case (retry w e')
    with options_logged_retry [OF o n] show ?thesis by (simp add: final_state_def)
  next
    case (exhausted w e')
    with options_logged_retry [OF o n] show ?thesis by (simp add: final_state_def)
  next
    case (other x e')
    with o show ?thesis by (simp add: final_state_def options_logged_def after_call_def)
  qed
  with consistent_step [OF c] show ?thesis by simp
qed

lemma options_logged_run:
  "\<forall>s \<in> set (run_states a p (initial_state a opts e)).
     consistent a p s \<and> options_logged a opts s"
proof (rule conjunct1 [OF run_states_invariant
         [where I = "\<lambda>s. consistent a p s \<and> options_logged a opts s"]])
  show "consistent a p (initial_state a opts e) \<and> options_logged a opts (initial_state a opts e)"
    by (simp add: consistent_initial options_logged_initial)
next
  fix s s' assume "consistent a p s \<and> options_logged a opts s" and "loop_body a p s = Inr s'"
  with options_logged_step [of a p s opts] show "consistent a p s' \<and> options_logged a opts s'"
    by (simp add: final_state_def)
next
  fix s x s' assume "consistent a p s \<and> options_logged a opts s"
    and "loop_body a p s = Inl (x, s')"
  with options_logged_step [of a p s opts] show "consistent a p s' \<and> options_logged a opts s'"
    by (simp add: final_state_def)
qed

lemma options_logged_final:
  "consistent a p (snd (psi4_optimize a p opts e)) \<and>
   options_logged a opts (snd (psi4_optimize a p opts e))"
proof -
  from options_logged_run [of a p opts e] last_run_states_mem [of a p "initial_state a opts e"]
  have "options_logged a opts (last (run_states a p (initial_state a opts e)))" by blast
  moreover from psi4_optimize_state [of a p opts e]
  obtain t where "snd (psi4_optimize a p opts e) =
         (last (run_states a p (initial_state a opts e)))\<lparr>traj := t\<rparr>" ..
  ultimately have "options_logged a opts (snd (psi4_optimize a p opts e))"
    by (simp add: options_logged_def)
  with final_consistent [of a p opts e] show ?thesis by simp
qed

text \<open>
  C9, as stated, says that the driver changes no option but the iteration budget. After one
  failed attempt the option \<open>GUESS\<close>, which the caller had not set, is \<open>read\<close>.
\<close>

theorem guess_option_changed:
  "map_of [(''BASIS'', StrOpt ''cc-pvdz'')] ''GUESS'' = None \<and>
   fst (psi4_optimize (bare_args 20) (stub 1) [(''BASIS'', StrOpt ''cc-pvdz'')] 0)
     = Inr (1, 2, History 3) \<and>
   map_of (options (snd (psi4_optimize (bare_args 20) (stub 1) [(''BASIS'', StrOpt ''cc-pvdz'')] 0)))
     ''GUESS'' = Some (StrOpt ''read'')"
  by code_simp

text \<open>
  C9, amended. At every state of a run, and at its end, every option other than
  \<open>MAXITER\<close>, \<open>GEOM_MAXITER\<close> and \<open>GUESS\<close> is as the caller left it; \<open>GUESS\<close> is as the caller left
  it until the first failed attempt and \<open>read\<close> from then on; \<open>MAXITER\<close> and
  \<open>GEOM_MAXITER\<close> hold one and the same integer. The calls of \<open>psi4.set_options\<close> made so
  far are one before the first attempt, with the two budget keys, and one after each
  failed attempt, with \<open>GUESS\<close> and the two budget keys; and the option dictionary is what
  these calls make of the dictionary of the caller.
\<close>

theorem options_written_by_driver:
  "(\<forall>s \<in> insert (snd (psi4_optimize a p opts e))
             (set (run_states a p (initial_state a opts e))).
      (\<forall>k. k \<notin> {''MAXITER'', ''GEOM_MAXITER'', ''GUESS''} \<longrightarrow>
           map_of (options s) k = map_of opts k) \<and>
      map_of (options s) ''GUESS'' =
        (if loop_count s = 0 then map_of opts ''GUESS'' else Some (StrOpt ''read'')) \<and>
      (\<exists>n. map_of (options s) ''MAXITER'' = Some (IntOpt n)) \<and>
      map_of (options s) ''GEOM_MAXITER'' = map_of (options s) ''MAXITER'' \<and>
      loop_count s = int (length (failures (optimize_calls s))) \<and>
      set_options_calls s =
        first_options a # replicate (length (failures (optimize_calls s))) (retry_options a) \<and>
      options s = fold set_options (set_options_calls s) opts)"
proof
  fix s
  assume s: "s \<in> insert (snd (psi4_optimize a p opts e))
             (set (run_states a p (initial_state a opts e)))"
  with options_at_run [of a p opts e] options_at_final [of a opts p e]
  have "options_at a opts s" by blast
  then have 1: "(\<forall>k. k \<notin> {''MAXITER'', ''GEOM_MAXITER'', ''GUESS''} \<longrightarrow>
           map_of (options s) k = map_of opts k) \<and>
      map_of (options s) ''GUESS'' =
        (if loop_count s = 0 then map_of opts ''GUESS'' else Some (StrOpt ''read'')) \<and>
      (\<exists>n. map_of (options s) ''MAXITER'' = Some (IntOpt n)) \<and>
      map_of (options s) ''GEOM_MAXITER'' = map_of (options s) ''MAXITER''"
    unfolding options_at_def driver_options_def by simp
  from s options_logged_run [of a p opts e] options_logged_final [of a p opts e]
  have "consistent a p s \<and> options_logged a opts s" by blast
  then have 2: "loop_count s = int (length (failures (optimize_calls s))) \<and>
      set_options_calls s =
        first_options a # replicate (length (failures (optimize_calls s))) (retry_options a) \<and>
      options s = fold set_options (set_options_calls s) opts"
    by (simp add: consistent_def options_logged_def)
  from 1 2 show "(\<forall>k. k \<notin> {''MAXITER'', ''GEOM_MAXITER'', ''GUESS''} \<longrightarrow>
           map_of (options s) k = map_of opts k) \<and>
      map_of (options s) ''GUESS'' =
        (if loop_count s = 0 then map_of opts ''GUESS'' else Some (StrOpt ''read'')) \<and>
      (\<exists>n. map_of (options s) ''MAXITER'' = Some (IntOpt n)) \<and>
      map_of (options s) ''GEOM_MAXITER'' = map_of (options s) ''MAXITER'' \<and>
      loop_count s = int (length (failures (optimize_calls s))) \<and>
      set_options_calls s =
        first_options a # replicate (length (failures (optimize_calls s))) (retry_options a) \<and>
      options s = fold set_options (set_options_calls s) opts"
    by blast
qed

theorem options_written_by_driver_witness:
  "''BASIS'' \<notin> {''MAXITER'', ''GEOM_MAXITER'', ''GUESS''} \<and>
   map_of (options (snd (psi4_optimize (bare_args 20) (stub 1) [(''BASIS'', StrOpt ''cc-pvdz'')] 0)))
     ''BASIS'' = Some (StrOpt ''cc-pvdz'') \<and>
   length (failures (optimize_calls
     (snd (psi4_optimize (bare_args 20) (stub 1) [(''BASIS'', StrOpt ''cc-pvdz'')] 0)))) = 1 \<and>
   set_options_calls (snd (psi4_optimize (bare_args 20) (stub 1) [(''BASIS'', StrOpt ''cc-pvdz'')] 0))
     = [[(''MAXITER'', IntOpt 10), (''GEOM_MAXITER'', IntOpt 10)],
        [(''GUESS'', StrOpt ''read''), (''MAXITER'', IntOpt 20), (''GEOM_MAXITER'', IntOpt 20)]]"
proof -
  let ?s = "snd (psi4_optimize (bare_args 20) (stub 1) [(''BASIS'', StrOpt ''cc-pvdz'')] 0)"
  have f: "length (failures (optimize_calls ?s)) = 1" by code_simp
  have o: "first_options (bare_args 20) = [(''MAXITER'', IntOpt 10), (''GEOM_MAXITER'', IntOpt 10)]"
    "retry_options (bare_args 20) =
       [(''GUESS'', StrOpt ''read''), (''MAXITER'', IntOpt 20), (''GEOM_MAXITER'', IntOpt 20)]"
    by (simp_all add: first_options_def retry_options_def bare_args_def notebook_args_def)
  have k: "''BASIS'' \<notin> {''MAXITER'', ''GEOM_MAXITER'', ''GUESS''}" by simp
  note t = options_written_by_driver
          [of "bare_args 20" "stub 1" "[(''BASIS'', StrOpt ''cc-pvdz'')]" 0,
           THEN bspec, OF insertI1]
  from t [THEN conjunct1, THEN spec, THEN mp, OF k]
  have a: "map_of (options ?s) ''BASIS'' = Some (StrOpt ''cc-pvdz'')" by simp
  from t have "set_options_calls ?s =
        first_options (bare_args 20) #
        replicate (length (failures (optimize_calls ?s))) (retry_options (bare_args 20))"
    by blast
  then have b: "set_options_calls ?s
     = [[(''MAXITER'', IntOpt 10), (''GEOM_MAXITER'', IntOpt 10)],
        [(''GUESS'', StrOpt ''read''), (''MAXITER'', IntOpt 20), (''GEOM_MAXITER'', IntOpt 20)]]"
    unfolding f o by simp
  from k a f b show ?thesis by blast
qed

subsection \<open>The iteration budget\<close>

lemma budgets_after_call:
  "budgets (after_call s r e') = budgets s @ [map_of (options s) ''MAXITER'']"
  by (simp add: budgets_def after_call_def)

lemma budget_log_step:
  assumes "(consistent a p s \<and> options_at a opts s) \<and> budget_log a s" and "unconv s"
  shows "budgets_said a (final_state (loop_body a p s)) \<and>
         (\<forall>s'. loop_body a p s = Inr s' \<longrightarrow> budget_log a s')"
proof -
  from assms have c: "consistent a p s" and o: "options_at a opts s"
    and b: "budgets s =
        map (\<lambda>k. Some (IntOpt (if k = 0 then initial_iterations a
                                else initial_iterations a + increment_iteration a)))
          [0 ..< length (optimize_calls s)]"
    and l: "loop_count s = int (length (optimize_calls s))"
    by (simp_all add: budget_log_def budgets_said_def)
  from o l have m: "map_of (options s) ''MAXITER'' =
      Some (IntOpt (if length (optimize_calls s) = 0 then initial_iterations a
                    else initial_iterations a + increment_iteration a))"
    by (simp add: options_at_def)
  have b': "budgets (after_call s r e') =
        map (\<lambda>k. Some (IntOpt (if k = 0 then initial_iterations a
                                else initial_iterations a + increment_iteration a)))
          [0 ..< length (optimize_calls (after_call s r e'))]" for r e'
    unfolding budgets_after_call b m by (simp add: after_call_def)
  from consistent_bound [OF c] show ?thesis
  proof (cases rule: loop_body_cases [of a s p])
    case (converged en w h e')
    with b' [of "Inr (en, w, h)" e'] show ?thesis
      by (simp add: final_state_def budget_log_def budgets_said_def budgets_def after_call_def)
  next
    case (retry w e')
    with b' [of "Inl (ConvergenceError w)" e'] l show ?thesis
      by (simp add: final_state_def budget_log_def budgets_said_def budgets_def after_call_def
            retry_state_def)
  next
    case (exhausted w e')
    with b' [of "Inl (ConvergenceError w)" e'] show ?thesis
      by (simp add: final_state_def budgets_said_def budgets_def after_call_def retry_state_def)
  next
    case (other x e')
    with b' [of "Inl x" e'] show ?thesis
      by (simp add: final_state_def budgets_said_def budgets_def after_call_def)
  qed
qed

lemma budgets_of_run: "budgets_said a (snd (psi4_optimize a p opts e))"
proof -
  let ?I = "\<lambda>s. (consistent a p s \<and> options_at a opts s) \<and> budget_log a s"
  have "\<forall>s \<in> set (run_states a p (initial_state a opts e)). budgets_said a s"
  proof (rule conjunct1 [OF run_states_invariant [where I = ?I]])
    show "?I (initial_state a opts e)"
      using consistent_initial [of a p opts e] options_at_initial [of a opts e]
      by (simp add: budget_log_def budgets_said_def budgets_def) (simp add: initial_state_def)
  next
    fix s assume "?I s" then show "budgets_said a s"
      by (simp add: budget_log_def budgets_said_def)
  next
    fix s s' assume I: "?I s" and u: "unconv s" and lb: "loop_body a p s = Inr s'"
    with budget_log_step [OF I u] options_at_step [of a p s opts]
    show "?I s'" by (simp add: final_state_def)
  next
    fix s x s' assume I: "?I s" and u: "unconv s" and lb: "loop_body a p s = Inl (x, s')"
    with budget_log_step [OF I u] show "budgets_said a s'" by (simp add: final_state_def)
  qed
  with last_run_states_mem [of a p "initial_state a opts e"]
  have "budgets_said a (last (run_states a p (initial_state a opts e)))" by blast
  moreover from psi4_optimize_state [of a p opts e]
  obtain t where "snd (psi4_optimize a p opts e) =
         (last (run_states a p (initial_state a opts e)))\<lparr>traj := t\<rparr>" ..
  ultimately show ?thesis by (simp add: budgets_said_def budgets_def)
qed

text \<open>
  C1 says that attempt \<open>k\<close> runs under the budget
  \<open>initial_iterations + k * increment_iteration\<close>, as the docstring of the function does
  (``incrementing the number of iterations by increment_iteration from initial_iterations
  each loop''). The handler sets \<open>initial_iterations + increment_iteration\<close> at every
  failure and never changes \<open>initial_iterations\<close>. For the call of the notebook
  (\<open>initial_iterations = 10\<close>, \<open>increment_iteration = 10\<close>, \<open>max_loop_count = 20\<close>) and an
  engine that fails three times and then returns, the four attempts run under 10, 20, 20
  and 20, where C1 gives 10, 20, 30 and 40, and the budget in effect after three failures
  is 20, not 40.
\<close>

theorem budget_stays_after_first_retry:
  "initial_iterations (bare_args 20) = 10 \<and> increment_iteration (bare_args 20) = 10 \<and>
   fst (psi4_optimize (bare_args 20) (stub 3) [] 0) = Inr (1, 2, History 3) \<and>
   loop_count (snd (psi4_optimize (bare_args 20) (stub 3) [] 0)) = 3 \<and>
   budgets (snd (psi4_optimize (bare_args 20) (stub 3) [] 0)) =
     [Some (IntOpt 10), Some (IntOpt 20), Some (IntOpt 20), Some (IntOpt 20)] \<and>
   map_of (options (snd (psi4_optimize (bare_args 20) (stub 3) [] 0))) ''MAXITER'' =
     Some (IntOpt 20)"
  by code_simp



end
